theory Spec2Isabelle
  imports Complex_Main "HOL-Library.Word" "HOL-Library.Multiset" "HOL-Library.Sublist"
begin

section \<open>KPIECE1 for systems with controls: data model\<close>

text \<open>
  The planner of \<^verbatim>\<open>ompl/control/planners/kpiece/src/KPIECE1.cpp\<close>.
  A \<^verbatim>\<open>double\<close> is modelled as a \<open>real\<close> (no rounding, no NaN, no infinity);
  an \<^verbatim>\<open>unsigned int\<close> that the source file itself declares (the arguments of
  \<^verbatim>\<open>findNextMotion\<close>, the counters \<^verbatim>\<open>cd\<close>, \<^verbatim>\<open>index\<close> and \<^verbatim>\<open>nextIndex\<close> of
  \<^verbatim>\<open>solve\<close>) is a \<open>32 word\<close>. The counters that the absent header declares
  (\<^verbatim>\<open>steps\<close>, \<^verbatim>\<open>coverage\<close>, \<^verbatim>\<open>iteration\<close>, \<^verbatim>\<open>selections\<close>, \<^verbatim>\<open>tree_.size\<close>)
  are natural numbers, as the specification describes them.
\<close>

type_synonym Coord = "int list"

text \<open>
  Modelled from the spec: the struct \<^verbatim>\<open>Motion\<close> is declared in the absent header; its
  fields are the four the source file reads and writes. The source never changes a
  motion once it has been handed to \<^verbatim>\<open>addMotion\<close>, and never compares two
  \<^verbatim>\<open>Motion*\<close>, so a pointer to a motion is modelled by the motion's value;
  \<^verbatim>\<open>parent\<close> is an optional motion (\<open>None\<close> for \<^verbatim>\<open>NULL\<close>).
\<close>

datatype ('s, 'c) Motion =
  Motion (state: 's) (control: 'c) (steps: nat) (parent: "('s, 'c) Motion option")

text \<open>
  Modelled from the spec: the struct \<^verbatim>\<open>CellData\<close> is declared in the absent header;
  its fields are the five the source file reads and writes.
\<close>

record ('s, 'c) CellData =
  motions :: "('s, 'c) Motion list"
  coverage :: nat
  iteration :: nat
  selections :: nat
  score :: real

text \<open>
  Modelled from the spec: \<^verbatim>\<open>Grid::Cell\<close> belongs to the grid class, which is not
  part of the source files at hand; the specification gives a cell a coordinate, its
  data and the priority key (\<open>importance\<close>) that the grid computes through the
  \<^verbatim>\<open>onCellUpdate\<close> hook. At most one cell exists per coordinate and no cell is ever
  removed, so a \<^verbatim>\<open>Grid::Cell*\<close> is modelled by the coordinate of the cell.
\<close>

record ('s, 'c) Cell =
  coord :: Coord
  data :: "('s, 'c) CellData"
  importance :: real

text \<open>
  Modelled from the spec: the struct \<^verbatim>\<open>CloseSample\<close> of the absent header, a triple
  of cell, motion and distance to the goal.
\<close>

record ('s, 'c) CloseSample =
  cell :: Coord
  motion :: "('s, 'c) Motion"
  distance :: real

text \<open>
  Modelled from the spec: the container type of \<^verbatim>\<open>CloseSamples::samples\<close> is
  declared in the absent header; the specification makes it a set ordered by
  distance ascending with a stable tie-break, here a list kept in that order, so
  that \<^verbatim>\<open>begin()\<close> is the head and \<^verbatim>\<open>rbegin()\<close> the last element.
\<close>

record ('s, 'c) CloseSamples =
  samples :: "('s, 'c) CloseSample list"
  maxSize :: nat

datatype error =
  NullDereference
  | OutOfRange
  | DivisionByZero
  | AssertionFailed
  | Exception string

section \<open>CloseSamples\<close>

text \<open>
  Modelled from the spec: \<^verbatim>\<open>samples.insert(cs)\<close> on the ordered container; the new
  sample goes behind every sample whose distance is not larger (stable tie-break).
\<close>

fun insert_sample ::
  "('s, 'c) CloseSample \<Rightarrow> ('s, 'c) CloseSample list \<Rightarrow> ('s, 'c) CloseSample list" where
  "insert_sample x [] = [x]"
| "insert_sample x (y # ys) =
     (if distance x < distance y then x # y # ys else y # insert_sample x ys)"

text \<open>\<^verbatim>\<open>CloseSamples::consider\<close>: the returned flag and the container afterwards.\<close>

definition cs_consider ::
  "('s, 'c) CloseSamples \<Rightarrow> Coord \<Rightarrow> ('s, 'c) Motion \<Rightarrow> real \<Rightarrow> bool \<times> ('s, 'c) CloseSamples" where
  "cs_consider cs c m d =
     (if samples cs = [] then
        (True, cs\<lparr>samples := insert_sample \<lparr>cell = c, motion = m, distance = d\<rparr> (samples cs)\<rparr>)
      else if distance (last (samples cs)) > d then
        (let s1 = (if length (samples cs) \<ge> maxSize cs then butlast (samples cs) else samples cs)
         in (True, cs\<lparr>samples := insert_sample \<lparr>cell = c, motion = m, distance = d\<rparr> s1\<rparr>))
      else (False, cs))"

text \<open>
  \<^verbatim>\<open>CloseSamples::selectMotion\<close>: \<open>Some (smotion, scell)\<close> stands for the two
  reference arguments written and \<^verbatim>\<open>true\<close> returned, \<open>None\<close> for \<^verbatim>\<open>false\<close>.
\<close>

definition cs_selectMotion ::
  "('s, 'c) CloseSamples \<Rightarrow> (('s, 'c) Motion \<times> Coord) option \<times> ('s, 'c) CloseSamples" where
  "cs_selectMotion cs =
     (if length (samples cs) > 0 then
        (let scell = cell (hd (samples cs));
             smotion = motion (hd (samples cs));
             d = (distance (hd (samples cs)) + distance (last (samples cs))) * 0.55;
             cs1 = cs\<lparr>samples := tl (samples cs)\<rparr>
         in (Some (smotion, scell), snd (cs_consider cs1 scell smotion d)))
      else (None, cs))"

definition cs_canSample :: "('s, 'c) CloseSamples \<Rightarrow> bool" where
  "cs_canSample cs = (length (samples cs) > 0)"

text \<open>The order the container keeps: distances ascending from \<^verbatim>\<open>begin()\<close>.\<close>

definition ordered :: "('s, 'c) CloseSample list \<Rightarrow> bool" where
  "ordered xs = sorted (map distance xs)"

section \<open>The projection grid\<close>

text \<open>
  The grid class is declared outside the source files at hand; its operations are
  modelled from the specification. The grid is the list of its cells in creation
  order.
\<close>

text \<open>Modelled from the spec: \<^verbatim>\<open>getCell\<close>, the exact lookup of the cell at a coordinate.\<close>

definition getCell :: "('s, 'c) Cell list \<Rightarrow> Coord \<Rightarrow> ('s, 'c) Cell option" where
  "getCell g co = find (\<lambda>x. coord x = co) g"

text \<open>Writing through a \<^verbatim>\<open>Grid::Cell*\<close>: the cell at that coordinate is replaced.\<close>

definition modify_cell ::
  "('s, 'c) Cell list \<Rightarrow> Coord \<Rightarrow> (('s, 'c) Cell \<Rightarrow> ('s, 'c) Cell) \<Rightarrow> ('s, 'c) Cell list" where
  "modify_cell g co f = map (\<lambda>x. if coord x = co then f x else x) g"

text \<open>
  Modelled from the spec: the orthogonal neighbours of a coordinate, one step up and
  one step down in each dimension.
\<close>

definition neighbours :: "Coord \<Rightarrow> Coord list" where
  "neighbours co = concat (map (\<lambda>i. [co[i := co ! i + 1], co[i := co ! i - 1]]) [0..<length co])"

text \<open>
  Modelled from the spec: a cell is a border (exterior) cell while one of its
  orthogonal neighbours is missing from the grid.
\<close>

definition border :: "('s, 'c) Cell list \<Rightarrow> Coord \<Rightarrow> bool" where
  "border g co = list_ex (\<lambda>n. getCell g n = None) (neighbours co)"

text \<open>Modelled from the spec: the two partitions of the grid, exterior and interior.\<close>

definition externalCells :: "('s, 'c) Cell list \<Rightarrow> ('s, 'c) Cell list" where
  "externalCells g = filter (\<lambda>x. border g (coord x)) g"

definition internalCells :: "('s, 'c) Cell list \<Rightarrow> ('s, 'c) Cell list" where
  "internalCells g = filter (\<lambda>x. \<not> border g (coord x)) g"

text \<open>
  Modelled from the spec: the cell of largest priority key in a partition, or none
  when the partition is empty; among equal keys the cell created first is taken.
\<close>

fun top_cell :: "('s, 'c) Cell list \<Rightarrow> ('s, 'c) Cell option" where
  "top_cell [] = None"
| "top_cell (x # xs) =
     (case top_cell xs of
        None \<Rightarrow> Some x
      | Some y \<Rightarrow> if importance x < importance y then Some y else Some x)"

text \<open>Modelled from the spec: \<^verbatim>\<open>topExternal\<close> and \<^verbatim>\<open>topInternal\<close>.\<close>

definition topExternal :: "('s, 'c) Cell list \<Rightarrow> ('s, 'c) Cell option" where
  "topExternal g = top_cell (externalCells g)"

definition topInternal :: "('s, 'c) Cell list \<Rightarrow> ('s, 'c) Cell option" where
  "topInternal g = top_cell (internalCells g)"

text \<open>
  Modelled from the spec: \<^verbatim>\<open>fracExternal\<close>, the number of exterior cells divided by the
  number of cells. On the empty grid the
  quotient is \<open>0 / 0\<close>, which is \<open>0\<close> here (a NaN in the source); either way
  \<^verbatim>\<open>std::max(selectBorderFraction_, fracExternal())\<close> is then the border fraction.
\<close>

definition fracExternal :: "('s, 'c) Cell list \<Rightarrow> real" where
  "fracExternal g = real (length (externalCells g)) / real (length g)"

text \<open>
  Modelled from the spec: \<^verbatim>\<open>createCell\<close> puts a new cell at the coordinate; its data
  is a fresh \<^verbatim>\<open>CellData\<close> (no motions), whose other fields \<^verbatim>\<open>addMotion\<close> assigns at
  once.
\<close>

definition createCell :: "('s, 'c) Cell list \<Rightarrow> Coord \<Rightarrow> ('s, 'c) Cell list" where
  "createCell g co =
     g @ [\<lparr>coord = co,
           data = \<lparr>motions = [], coverage = 0, iteration = 0, selections = 0, score = 0\<rparr>,
           importance = 0\<rparr>]"

section \<open>The planner and what it consumes\<close>

text \<open>
  The external collaborators: the projection, the goal test with its distance, the
  null control, the hook \<^verbatim>\<open>computeImportance\<close> wired by the constructor, the control
  durations and step size of the space information, the step count a freshly
  constructed \<^verbatim>\<open>Motion\<close> carries (the constructor is declared in the absent header),
  and \<^verbatim>\<open>goal->isAchieved()\<close> as a function of the solution path this call has set.
\<close>

record ('s, 'c) PathControl =
  states :: "'s list"
  controls :: "'c list"
  controlDurations :: "real list"

record ('s, 'c) Env =
  computeCoordinates :: "'s \<Rightarrow> Coord"
  isSatisfied :: "'s \<Rightarrow> bool \<times> real"
  nullControl :: 'c
  computeImportance :: "('s, 'c) Cell \<Rightarrow> real"
  minControlDuration :: "32 word"
  maxControlDuration :: "32 word"
  propagationStepSize :: real
  initialSteps :: nat
  isAchieved :: "(('s, 'c) PathControl \<times> bool) option \<Rightarrow> bool"

datatype Msg =
  Error string
  | Inform string "nat list"
  | Warn string
  | Debug string

text \<open>
  Modelled from the spec: the struct of \<^verbatim>\<open>tree_\<close> is declared in the absent header;
  its fields are the grid, the number of motions and the iteration counter.
\<close>

record ('s, 'c) Tree =
  grid :: "('s, 'c) Cell list"
  tree_size :: nat
  tree_iteration :: nat

text \<open>The members of the planner that the source file reads and writes.\<close>

record ('s, 'c) KPIECE1 =
  nCloseSamples :: nat
  goalBias :: real
  selectBorderFraction :: real
  badScoreFactor :: real
  goodScoreFactor :: real
  tree :: "('s, 'c) Tree"
  msg :: "Msg list"

text \<open>
  What one pass through the loop of \<^verbatim>\<open>solve\<close> draws from the random number
  generator, the control sampler and the propagator: the two uniform numbers of the
  selection, \<^verbatim>\<open>halfNormalInt\<close>, the sampled control, the count that
  \<^verbatim>\<open>propagateWhileValid\<close> returns with the state buffer it has filled, and the
  uniform number of the splitting fallback.
\<close>

record ('s, 'c) Draws =
  u_bias :: real
  u_select :: real
  halfNormalInt :: "int \<Rightarrow> int \<Rightarrow> int"
  rctrl :: 'c
  propagated :: "32 word"
  buffer :: "'s list"
  u_split :: real

text \<open>The locals of \<^verbatim>\<open>solve\<close> that live across iterations; no distance yet is \<open>None\<close>.\<close>

record ('s, 'c) Search =
  planner :: "('s, 'c) KPIECE1"
  closeSamples :: "('s, 'c) CloseSamples"
  solution :: "('s, 'c) Motion option"
  approxsol :: "('s, 'c) Motion option"
  approxdif :: "real option"

datatype 'a flow = Continue 'a | Break 'a

record ('s, 'c) Outcome =
  returned :: bool
  final :: "('s, 'c) KPIECE1"
  solutionPath :: "(('s, 'c) PathControl \<times> bool) option"
  difference :: "real option"

text \<open>\<^verbatim>\<open>std::numeric_limits<double>::epsilon()\<close>.\<close>

definition epsilon :: real where
  "epsilon = 1 / 2 ^ 52"

text \<open>
  The constructor (lines 44 to 58). The tree's own constructor is in the absent
  header: by the specification the tree starts empty with iteration 1, as \<^verbatim>\<open>clear\<close>
  (lines 81 to 89) leaves it.
\<close>

definition KPIECE1_new :: "('s, 'c) KPIECE1" where
  "KPIECE1_new =
     \<lparr>nCloseSamples = 30, goalBias = 0.05, selectBorderFraction = 0.8,
      badScoreFactor = 0.45, goodScoreFactor = 0.9,
      tree = \<lparr>grid = [], tree_size = 0, tree_iteration = 1\<rparr>, msg = []\<rparr>"

definition clear :: "('s, 'c) KPIECE1 \<Rightarrow> ('s, 'c) KPIECE1" where
  "clear p = p\<lparr>tree := \<lparr>grid = [], tree_size = 0, tree_iteration = 1\<rparr>\<rparr>"


section \<open>findNextMotion\<close>

text \<open>
  The loop of \<^verbatim>\<open>findNextMotion\<close> from the counter \<open>i\<close> on. Reading a vector past its
  end has no defined behaviour in the source; here it is the error \<open>OutOfRange\<close>.
\<close>

function findNextMotion_loop ::
  "Coord list \<Rightarrow> 32 word \<Rightarrow> 32 word \<Rightarrow> 32 word \<Rightarrow> error + 32 word" where
  "findNextMotion_loop coords index cnt i =
     (if i < cnt then
        (if unat i < length coords \<and> unat index < length coords then
           (if coords ! unat i \<noteq> coords ! unat index then Inr (i - 1)
            else findNextMotion_loop coords index cnt (i + 1))
         else Inl OutOfRange)
      else Inr (cnt - 1))"
  by pat_completeness auto

lemma word32_less_unat_Suc:
  fixes i n :: "32 word"
  assumes "i < n"
  shows "unat (i + 1) = Suc (unat i)"
proof -
  have "n \<le> - 1" by (rule word_n1_ge)
  with assms have "i \<noteq> - 1" by auto
  then have "1 + i \<noteq> 0"
    by (simp add: eq_neg_iff_add_eq_0 add.commute)
  then have "unat (1 + i) = Suc (unat i)" by (rule unatSuc)
  then show ?thesis by (simp add: add.commute)
qed

termination findNextMotion_loop
  by (relation "measure (\<lambda>(coords, index, cnt, i). unat cnt - unat i)")
     (auto simp: word32_less_unat_Suc word_less_nat_alt)

definition findNextMotion :: "Coord list \<Rightarrow> 32 word \<Rightarrow> 32 word \<Rightarrow> error + 32 word" where
  "findNextMotion coords index cnt = findNextMotion_loop coords index cnt (index + 1)"

section \<open>addMotion and selectMotion\<close>

text \<open>
  Modelled from the spec: the grid recomputes the priority key of a cell through the
  hook, in \<^verbatim>\<open>update\<close> for one cell, in \<^verbatim>\<open>add\<close> for a cell just created, in
  \<^verbatim>\<open>updateAll\<close> for every cell.
\<close>

definition Grid_update ::
  "('s, 'c) Env \<Rightarrow> ('s, 'c) Cell list \<Rightarrow> Coord \<Rightarrow> ('s, 'c) Cell list" where
  "Grid_update env g co = modify_cell g co (\<lambda>x. x\<lparr>importance := computeImportance env x\<rparr>)"

definition Grid_add ::
  "('s, 'c) Env \<Rightarrow> ('s, 'c) Cell list \<Rightarrow> Coord \<Rightarrow> ('s, 'c) Cell list" where
  "Grid_add env g co = modify_cell g co (\<lambda>x. x\<lparr>importance := computeImportance env x\<rparr>)"

definition updateAll :: "('s, 'c) Env \<Rightarrow> ('s, 'c) Cell list \<Rightarrow> ('s, 'c) Cell list" where
  "updateAll env g = map (\<lambda>x. x\<lparr>importance := computeImportance env x\<rparr>) g"

text \<open>
  \<^verbatim>\<open>addMotion\<close> returns the planner afterwards and the cell (its coordinate). The
  logarithm of the source is \<open>ln\<close>; the tree's iteration starts at 1 and only grows.
\<close>

definition addMotion ::
  "('s, 'c) Env \<Rightarrow> ('s, 'c) KPIECE1 \<Rightarrow> ('s, 'c) Motion \<Rightarrow> real \<Rightarrow> ('s, 'c) KPIECE1 \<times> Coord" where
  "addMotion env p m d =
     (let co = computeCoordinates env (state m);
          t = tree p;
          g = (case getCell (grid t) co of
                 Some x \<Rightarrow>
                   Grid_update env
                     (modify_cell (grid t) co
                        (\<lambda>x. x\<lparr>data := (data x)\<lparr>motions := motions (data x) @ [m],
                                                coverage := coverage (data x) + steps m\<rparr>\<rparr>))
                     co
               | None \<Rightarrow>
                   Grid_add env
                     (modify_cell (createCell (grid t) co) co
                        (\<lambda>x. x\<lparr>data := (data x)\<lparr>motions := motions (data x) @ [m],
                                                coverage := steps m,
                                                iteration := tree_iteration t,
                                                selections := 1,
                                                score := (1.0 + ln (real (tree_iteration t)))
                                                           / (0.001 + d)\<rparr>\<rparr>))
                     co)
      in (p\<lparr>tree := t\<lparr>grid := g, tree_size := tree_size t + 1\<rparr>\<rparr>, co))"

text \<open>The numerical rescue of one \<^verbatim>\<open>CellData\<close> (line 359).\<close>

definition rescue :: "('s, 'c) Cell \<Rightarrow> ('s, 'c) Cell" where
  "rescue x = x\<lparr>data := (data x)\<lparr>score := score (data x) + (1.0 + ln (real (iteration (data x))))\<rparr>\<rparr>"

text \<open>
  \<^verbatim>\<open>KPIECE1::selectMotion\<close>, given the uniform number \<open>u\<close> and the generator's
  \<^verbatim>\<open>halfNormalInt\<close>. \<open>Inr (p', Some (smotion, scell))\<close> is the return of \<^verbatim>\<open>true\<close>,
  \<open>Inr (p', None)\<close> the return of \<^verbatim>\<open>false\<close>. The source reads
  \<^verbatim>\<open>scell->data->score\<close> (line 352) before it tests \<^verbatim>\<open>scell\<close> (line 363): with no top
  cell that read goes through a null pointer.
\<close>

definition selectMotion ::
  "('s, 'c) Env \<Rightarrow> ('s, 'c) KPIECE1 \<Rightarrow> real \<Rightarrow> (int \<Rightarrow> int \<Rightarrow> int)
     \<Rightarrow> error + (('s, 'c) KPIECE1 \<times> (('s, 'c) Motion \<times> Coord) option)" where
  "selectMotion env p u hn =
     (let g = grid (tree p);
          scell = (if u < max (selectBorderFraction p) (fracExternal g)
                   then topExternal g else topInternal g)
      in case scell of
           None \<Rightarrow> Inl NullDereference
         | Some sc \<Rightarrow>
             (let p1 = (if score (data sc) < epsilon then
                          p\<lparr>tree := (tree p)\<lparr>grid := updateAll env (map rescue g)\<rparr>,
                            msg := msg p @ [Debug ''Numerical precision limit reached. Resetting costs.'']\<rparr>
                        else p)
              in case getCell (grid (tree p1)) (coord sc) of
                   None \<Rightarrow> Inl NullDereference
                 | Some x \<Rightarrow>
                     if motions (data x) \<noteq> [] then
                       (let p2 = p1\<lparr>tree := (tree p1)\<lparr>grid :=
                                   modify_cell (grid (tree p1)) (coord sc)
                                     (\<lambda>y. y\<lparr>data := (data y)\<lparr>selections := selections (data y) + 1\<rparr>\<rparr>)\<rparr>\<rparr>;
                            k = hn 0 (int (length (motions (data x))) - 1)
                        in if 0 \<le> k \<and> k < int (length (motions (data x)))
                           then Inr (p2, Some (motions (data x) ! nat k, coord sc))
                           else Inl OutOfRange)
                     else Inr (p1, None)))"

declare findNextMotion_loop.simps [simp del]

text \<open>
  Called below a counter \<open>index < cnt\<close>, \<^verbatim>\<open>findNextMotion\<close> answers within
  \<open>index .. cnt - 1\<close>; the splitting loop terminates by this.
\<close>

lemma findNextMotion_loop_bounds:
  "index < i \<Longrightarrow> index < cnt \<Longrightarrow> findNextMotion_loop coords index cnt i = Inr x
     \<Longrightarrow> index \<le> x \<and> x < cnt"
proof (induction coords index cnt i rule: findNextMotion_loop.induct)
  case (1 coords index cnt i)
  have i0: "i \<noteq> 0" using "1.prems"(1) by (auto simp: word_less_nat_alt)
  have c0: "cnt \<noteq> 0" using "1.prems"(2) by (auto simp: word_less_nat_alt)
  show ?case
  proof (cases "i < cnt")
    case True
    note lt = True
    show ?thesis
    proof (cases "unat i < length coords \<and> unat index < length coords")
      case inr: True
      show ?thesis
      proof (cases "coords ! unat i \<noteq> coords ! unat index")
        case True
        with lt inr "1.prems"(3) have "x = i - 1"
          by (simp add: findNextMotion_loop.simps [of coords index cnt i])
        then show ?thesis
          using "1.prems"(1) lt i0
          by (auto simp: word_less_nat_alt word_le_nat_alt unat_minus_one)
      next
        case False
        with lt inr "1.prems"(3)
        have r: "findNextMotion_loop coords index cnt (i + 1) = Inr x"
          by (simp add: findNextMotion_loop.simps [of coords index cnt i])
        have "index < i + 1"
          using "1.prems"(1) lt
          by (auto simp: word_less_nat_alt word32_less_unat_Suc)
        from "1.IH" [OF lt inr _ this "1.prems"(2) r] False show ?thesis by simp
      qed
    next
      case False
      with lt "1.prems"(3) show ?thesis
        by (simp add: findNextMotion_loop.simps [of coords index cnt i])
    qed
  next
    case False
    with "1.prems"(3) have "x = cnt - 1"
      by (simp add: findNextMotion_loop.simps [of coords index cnt i])
    then show ?thesis
      using "1.prems"(2) c0
      by (auto simp: word_less_nat_alt word_le_nat_alt unat_minus_one)
  qed
qed

lemma findNextMotion_bounds:
  assumes "index < cnt" "findNextMotion coords index cnt = Inr x"
  shows "index \<le> x \<and> x < cnt"
proof -
  have "index < index + 1"
    using assms(1) by (auto simp: word_less_nat_alt word32_less_unat_Suc)
  then show ?thesis
    using findNextMotion_loop_bounds assms unfolding findNextMotion_def by blast
qed

section \<open>The loop of solve\<close>

text \<open>\<^verbatim>\<open>dist < approxdif\<close>, where \<open>None\<close> is the infinity \<^verbatim>\<open>approxdif\<close> starts with.\<close>

fun below :: "real \<Rightarrow> real option \<Rightarrow> bool" where
  "below d None = True"
| "below d (Some a) = (d < a)"

text \<open>
  The splitting loop (lines 253 to 284) from the counter \<open>index\<close> on, with the current
  parent \<open>existing\<close>. \<open>Break\<close> is the \<^verbatim>\<open>break\<close> of line 271.
\<close>

function split_loop ::
  "('s, 'c) Env \<Rightarrow> 'c \<Rightarrow> Coord list \<Rightarrow> 's list \<Rightarrow> 32 word \<Rightarrow> 32 word \<Rightarrow> ('s, 'c) Motion
     \<Rightarrow> ('s, 'c) Search \<Rightarrow> error + ('s, 'c) Search flow" where
  "split_loop env rc coords sts cd index existing st =
     (if index < cd then
        (case findNextMotion coords index cd of
           Inl e \<Rightarrow> Inl e
         | Inr nextIndex \<Rightarrow>
             if unat nextIndex < length sts then
               (let m = Motion (sts ! unat nextIndex) rc (unat (nextIndex - index + 1)) (Some existing);
                    solved = fst (isSatisfied env (state m));
                    di = snd (isSatisfied env (state m));
                    added = addMotion env (planner st) m di;
                    st1 = st\<lparr>planner := fst added\<rparr>;
                    toCell = snd added
                in if solved then Inr (Break (st1\<lparr>approxdif := Some di, solution := Some m\<rparr>))
                   else
                     (let st2 = (if below di (approxdif st1)
                                 then st1\<lparr>approxdif := Some di, approxsol := Some m\<rparr> else st1);
                          st3 = st2\<lparr>closeSamples := snd (cs_consider (closeSamples st2) toCell m di)\<rparr>
                      in split_loop env rc coords sts cd (nextIndex + 1) m st3))
             else Inl OutOfRange)
      else Inr (Continue st))"
  by pat_completeness auto

termination split_loop
proof (relation "measure (\<lambda>(env, rc, coords, sts, cd, index, existing, st). unat cd - unat index)",
    goal_cases)
  case 1
  show ?case by simp
next
  case (2 env rc coords sts cd index existing st nextIndex)
  then have b: "index \<le> nextIndex \<and> nextIndex < cd"
    using findNextMotion_bounds by blast
  then have "unat (nextIndex + 1) = Suc (unat nextIndex)"
    using word32_less_unat_Suc by blast
  with b show ?case
    by (auto simp: word_less_nat_alt word_le_nat_alt)
qed

declare split_loop.simps [simp del]

text \<open>
  The loop of lines 238 to 249 over the projected coordinates, carrying the flag
  \<^verbatim>\<open>interestingMotion\<close>.
\<close>

fun interestingMotion_loop ::
  "('s, 'c) Cell list \<Rightarrow> nat \<Rightarrow> Coord list \<Rightarrow> bool \<Rightarrow> bool" where
  "interestingMotion_loop g avg [] b = b"
| "interestingMotion_loop g avg (co # rest) b =
     interestingMotion_loop g avg rest
       (case getCell g co of
          None \<Rightarrow> True
        | Some x \<Rightarrow> (if \<not> b \<and> length (motions (data x)) \<le> avg then True else b))"

text \<open>
  The end of an iteration that has not left the loop: the score of the source cell
  is multiplied by the factor (line 291 or 294) and \<^verbatim>\<open>grid.update(ecell)\<close> is called
  (line 296).
\<close>

definition score_and_update ::
  "('s, 'c) Env \<Rightarrow> ('s, 'c) Search \<Rightarrow> Coord \<Rightarrow> real \<Rightarrow> error + ('s, 'c) Search flow" where
  "score_and_update env st ecell factor =
     (let p = planner st; g = grid (tree p)
      in case getCell g ecell of
           None \<Rightarrow> Inl NullDereference
         | Some x \<Rightarrow>
             Inr (Continue (st\<lparr>planner := p\<lparr>tree := (tree p)\<lparr>grid :=
                    Grid_update env
                      (modify_cell g ecell (\<lambda>y. y\<lparr>data := (data y)\<lparr>score := score (data y) * factor\<rparr>\<rparr>))
                      ecell\<rparr>\<rparr>\<rparr>)))"

text \<open>
  Deciding on a state to expand from (lines 212 to 221): the planner and the close
  samples afterwards, and \<^verbatim>\<open>existing\<close> with \<^verbatim>\<open>ecell\<close> when a selection succeeded.
\<close>

definition select_existing ::
  "('s, 'c) Env \<Rightarrow> ('s, 'c) Draws \<Rightarrow> ('s, 'c) KPIECE1 \<Rightarrow> ('s, 'c) CloseSamples
     \<Rightarrow> error + (('s, 'c) KPIECE1 \<times> ('s, 'c) CloseSamples \<times> (('s, 'c) Motion \<times> Coord) option)" where
  "select_existing env d p cs =
     (if cs_canSample cs \<and> u_bias d < goalBias p then
        (case cs_selectMotion cs of
           (Some r, cs') \<Rightarrow> Inr (p, cs', Some r)
         | (None, cs') \<Rightarrow>
             (case selectMotion env p (u_select d) (halfNormalInt d) of
                Inl e \<Rightarrow> Inl e
              | Inr (p', r) \<Rightarrow> Inr (p', cs', r)))
      else
        (case selectMotion env p (u_select d) (halfNormalInt d) of
           Inl e \<Rightarrow> Inl e
         | Inr (p', r) \<Rightarrow> Inr (p', cs, r)))"

text \<open>
  One pass through the body of the main loop (lines 209 to 296). \<open>Break\<close> is the
  \<^verbatim>\<open>break\<close> of line 287, taken when the splitting has found a solution; the
  division of line 234 by zero is the error \<open>DivisionByZero\<close>.
\<close>

definition solve_iteration ::
  "('s, 'c) Env \<Rightarrow> ('s, 'c) Draws \<Rightarrow> ('s, 'c) Search \<Rightarrow> error + ('s, 'c) Search flow" where
  "solve_iteration env d st =
     (let p0 = planner st;
          p1 = p0\<lparr>tree := (tree p0)\<lparr>tree_iteration := tree_iteration (tree p0) + 1\<rparr>\<rparr>
      in case select_existing env d p1 (closeSamples st) of
           Inl e \<Rightarrow> Inl e
         | Inr (p2, cs2, None) \<Rightarrow> Inl AssertionFailed
         | Inr (p2, cs2, Some (existing, ecell)) \<Rightarrow>
             (let st2 = st\<lparr>planner := p2, closeSamples := cs2\<rparr>;
                  cd = propagated d
              in if cd \<ge> minControlDuration env then
                   (if 3 * length (grid (tree p2)) = 0 then Inl DivisionByZero
                    else if unat cd \<le> length (buffer d) then
                      (let avgCov_two_thirds =
                             (2 * tree_size (tree p2)) div (3 * length (grid (tree p2)));
                           coords = map (computeCoordinates env) (take (unat cd) (buffer d));
                           interestingMotion =
                             interestingMotion_loop (grid (tree p2)) avgCov_two_thirds coords False
                       in if interestingMotion \<or> u_split d < 0.05 then
                            (case split_loop env (rctrl d) coords (buffer d) cd 0 existing st2 of
                               Inl e \<Rightarrow> Inl e
                             | Inr (Break st3) \<Rightarrow> Inr (Break st3)
                             | Inr (Continue st3) \<Rightarrow>
                                 score_and_update env st3 ecell (goodScoreFactor (planner st3)))
                          else score_and_update env st2 ecell (goodScoreFactor p2))
                    else Inl OutOfRange)
                 else score_and_update env st2 ecell (badScoreFactor p2)))"

text \<open>
  The main loop. The list holds the draws of the passes for which the termination
  condition was still false; the loop ends with the list or at a \<^verbatim>\<open>break\<close>.
\<close>

fun solve_loop ::
  "('s, 'c) Env \<Rightarrow> ('s, 'c) Draws list \<Rightarrow> ('s, 'c) Search \<Rightarrow> error + ('s, 'c) Search" where
  "solve_loop env [] st = Inr st"
| "solve_loop env (d # ds) st =
     (case solve_iteration env d st of
        Inl e \<Rightarrow> Inl e
      | Inr (Break st') \<Rightarrow> Inr st'
      | Inr (Continue st') \<Rightarrow> solve_loop env ds st')"

text \<open>
  Modelled from the spec: the constructor of \<^verbatim>\<open>Motion\<close> is declared in the absent
  header; a motion created at seed time has no parent. The seed of lines 174 to 176
  copies the start state and takes the null control.
\<close>

definition seed_motion :: "('s, 'c) Env \<Rightarrow> 's \<Rightarrow> ('s, 'c) Motion" where
  "seed_motion env st = Motion st (nullControl env) (initialSteps env) None"

text \<open>The seeding loop (lines 172 to 178) over the start states that \<^verbatim>\<open>nextStart\<close> yields.\<close>

fun seed :: "('s, 'c) Env \<Rightarrow> ('s, 'c) KPIECE1 \<Rightarrow> 's list \<Rightarrow> ('s, 'c) KPIECE1" where
  "seed env p [] = p"
| "seed env p (st # rest) = seed env (fst (addMotion env p (seed_motion env st) 1.0)) rest"

text \<open>The chain of parents from a motion back to its root (lines 309 to 314).\<close>

fun mpath :: "('s, 'c) Motion \<Rightarrow> ('s, 'c) Motion list" where
  "mpath (Motion s c n None) = [Motion s c n None]"
| "mpath (Motion s c n (Some q)) = Motion s c n (Some q) # mpath q"

definition solutionPath_of :: "('s, 'c) Env \<Rightarrow> ('s, 'c) Motion \<Rightarrow> ('s, 'c) PathControl" where
  "solutionPath_of env m =
     (let ms = rev (mpath m); inner = filter (\<lambda>x. parent x \<noteq> None) ms
      in \<lparr>states = map state ms,
          controls = map control inner,
          controlDurations = map (\<lambda>x. real (steps x) * propagationStepSize env) inner\<rparr>)"

text \<open>
  \<^verbatim>\<open>solve\<close> from the seeding on. The validity check at its start and the allocation
  of the control sampler and of the scratch buffers belong to the collaborators.
\<close>

definition solve ::
  "('s, 'c) Env \<Rightarrow> ('s, 'c) KPIECE1 \<Rightarrow> 's list \<Rightarrow> ('s, 'c) Draws list \<Rightarrow> error + ('s, 'c) Outcome" where
  "solve env p starts ds =
     (let p1 = seed env p starts
      in if length (grid (tree p1)) = 0 then
           Inr \<lparr>returned = False,
                final = p1\<lparr>msg := msg p1 @ [Error ''There are no valid initial states!'']\<rparr>,
                solutionPath = None, difference = None\<rparr>
         else
           (let p2 = p1\<lparr>msg := msg p1 @ [Inform ''Starting with %u states'' [tree_size (tree p1)]]\<rparr>;
                st0 = \<lparr>planner = p2,
                       closeSamples = \<lparr>samples = [], maxSize = nCloseSamples p2\<rparr>,
                       solution = None, approxsol = None, approxdif = None\<rparr>
            in case solve_loop env ds st0 of
                 Inl e \<Rightarrow> Inl e
               | Inr st \<Rightarrow>
                   (let approximate = (solution st = None);
                        sol = (if solution st = None then approxsol st else solution st);
                        path = map_option (\<lambda>m. (solutionPath_of env m, approximate)) sol;
                        p3 = planner st;
                        g = grid (tree p3);
                        warn = (if sol \<noteq> None \<and> approximate
                                then [Warn ''Found approximate solution''] else []);
                        created = Inform ''Created %u states in %u cells (%u internal + %u external)''
                                    [tree_size (tree p3), length g,
                                     length (internalCells g), length (externalCells g)]
                    in Inr \<lparr>returned = isAchieved env path,
                            final = p3\<lparr>msg := msg p3 @ warn @ [created]\<rparr>,
                            solutionPath = path,
                            difference = (if sol = None then None else approxdif st)\<rparr>)))"

section \<open>Auxiliary definitions for the statements and proofs\<close>

text \<open>
  The coordinate at \<open>j\<close>, above \<open>index\<close> and below \<open>cnt\<close>, differs from the one at
  \<open>index\<close>.
\<close>

definition differs :: "Coord list \<Rightarrow> 32 word \<Rightarrow> 32 word \<Rightarrow> 32 word \<Rightarrow> bool" where
  "differs coords index cnt j = (index < j \<and> j < cnt \<and> coords ! unat j \<noteq> coords ! unat index)"

text \<open>
  The cell that \<^verbatim>\<open>addMotion\<close> leaves where a cell existed, and the cell it creates
  where none did: the assignments of lines 380 to 382 and 386 to 393 in one step.
\<close>

definition added_to :: "('s, 'c) Env \<Rightarrow> ('s, 'c) Motion \<Rightarrow> ('s, 'c) Cell \<Rightarrow> ('s, 'c) Cell" where
  "added_to env m x =
     (let y = x\<lparr>data := (data x)\<lparr>motions := motions (data x) @ [m],
                                   coverage := coverage (data x) + steps m\<rparr>\<rparr>
      in y\<lparr>importance := computeImportance env y\<rparr>)"

definition created :: "('s, 'c) Env \<Rightarrow> nat \<Rightarrow> ('s, 'c) Motion \<Rightarrow> real \<Rightarrow> ('s, 'c) Cell" where
  "created env it m d =
     (let y = \<lparr>coord = computeCoordinates env (state m),
                data = \<lparr>motions = [m], coverage = steps m, iteration = it, selections = 1,
                         score = (1 + ln (real it)) / (0.001 + d)\<rparr>,
                importance = 0\<rparr>
      in y\<lparr>importance := computeImportance env y\<rparr>)"

text \<open>
  The invariant of the tree: one cell per coordinate, the motions of all cells
  counted by \<^verbatim>\<open>tree_.size\<close>, and the coverage of every cell the sum of the steps of
  its motions.
\<close>

definition tree_inv :: "('s, 'c) Tree \<Rightarrow> bool" where
  "tree_inv t =
     (distinct (map coord (grid t))
      \<and> sum_list (map (\<lambda>x. length (motions (data x))) (grid t)) = tree_size t
      \<and> list_all (\<lambda>x. coverage (data x) = sum_list (map steps (motions (data x)))) (grid t))"

text \<open>What the invariant reads of a cell.\<close>

definition cell_content :: "('s, 'c) Cell \<Rightarrow> Coord \<times> ('s, 'c) Motion list \<times> nat" where
  "cell_content x = (coord x, motions (data x), coverage (data x))"

fun flow_state :: "'a flow \<Rightarrow> 'a" where
  "flow_state (Continue s) = s"
| "flow_state (Break s) = s"

text \<open>
  Two planners whose grids read alike to the invariant, whose trees count the same
  number of motions, and whose parameters are the same.
\<close>

definition same_content :: "('s, 'c) KPIECE1 \<Rightarrow> ('s, 'c) KPIECE1 \<Rightarrow> bool" where
  "same_content p q =
     (map cell_content (grid (tree q)) = map cell_content (grid (tree p))
      \<and> tree_size (tree q) = tree_size (tree p)
      \<and> nCloseSamples q = nCloseSamples p
      \<and> goalBias q = goalBias p
      \<and> selectBorderFraction q = selectBorderFraction p
      \<and> badScoreFactor q = badScoreFactor p
      \<and> goodScoreFactor q = goodScoreFactor p)"

text \<open>The top cell of the partition that \<^verbatim>\<open>selectMotion\<close> chooses for the number \<open>u\<close>.\<close>

definition chosen_top :: "('s, 'c) KPIECE1 \<Rightarrow> real \<Rightarrow> ('s, 'c) Cell option" where
  "chosen_top p u =
     (if u < max (selectBorderFraction p) (fracExternal (grid (tree p)))
      then topExternal (grid (tree p)) else topInternal (grid (tree p)))"

text \<open>
  The two changes \<^verbatim>\<open>selectMotion\<close> makes to the planner: the numerical rescue when
  the score of the top cell is below epsilon (lines 352 to 361), and the count of
  one more selection of the cell (line 365).
\<close>

definition after_rescue :: "('s, 'c) Env \<Rightarrow> ('s, 'c) KPIECE1 \<Rightarrow> ('s, 'c) Cell \<Rightarrow> ('s, 'c) KPIECE1" where
  "after_rescue env p sc =
     (if score (data sc) < epsilon then
        p\<lparr>tree := (tree p)\<lparr>grid := updateAll env (map rescue (grid (tree p)))\<rparr>,
          msg := msg p @ [Debug ''Numerical precision limit reached. Resetting costs.'']\<rparr>
      else p)"

definition count_selection :: "('s, 'c) KPIECE1 \<Rightarrow> Coord \<Rightarrow> ('s, 'c) KPIECE1" where
  "count_selection p co =
     p\<lparr>tree := (tree p)\<lparr>grid :=
          modify_cell (grid (tree p)) co
            (\<lambda>y. y\<lparr>data := (data y)\<lparr>selections := selections (data y) + 1\<rparr>\<rparr>)\<rparr>\<rparr>"

text \<open>
  The pieces of one pass of the splitting loop: the motion created for the segment
  from \<open>index\<close> to \<open>nextIndex\<close>, the search state when that motion solves the
  problem, and the search state with which the loop goes on when it does not.
\<close>

definition new_motion ::
  "'s list \<Rightarrow> 'c \<Rightarrow> 32 word \<Rightarrow> 32 word \<Rightarrow> ('s, 'c) Motion \<Rightarrow> ('s, 'c) Motion" where
  "new_motion sts rc index nextIndex existing =
     Motion (sts ! unat nextIndex) rc (unat (nextIndex - index + 1)) (Some existing)"

definition solved_with :: "('s, 'c) Env \<Rightarrow> ('s, 'c) Search \<Rightarrow> ('s, 'c) Motion \<Rightarrow> ('s, 'c) Search" where
  "solved_with env st m =
     st\<lparr>planner := fst (addMotion env (planner st) m (snd (isSatisfied env (state m)))),
        approxdif := Some (snd (isSatisfied env (state m))),
        solution := Some m\<rparr>"

definition after_add :: "('s, 'c) Env \<Rightarrow> ('s, 'c) Search \<Rightarrow> ('s, 'c) Motion \<Rightarrow> ('s, 'c) Search" where
  "after_add env st m =
     (let di = snd (isSatisfied env (state m));
          added = addMotion env (planner st) m di;
          st1 = st\<lparr>planner := fst added\<rparr>;
          st2 = (if below di (approxdif st1)
                 then st1\<lparr>approxdif := Some di, approxsol := Some m\<rparr> else st1)
      in st2\<lparr>closeSamples := snd (cs_consider (closeSamples st2) (snd added) m di)\<rparr>)"

text \<open>
  The two halves of one pass of the main loop: the planner with its iteration
  counter advanced (line 209), and the pass from the propagation on (lines 224 to
  296), once \<^verbatim>\<open>existing\<close> and \<^verbatim>\<open>ecell\<close> have been selected.
\<close>

definition next_iteration :: "('s, 'c) KPIECE1 \<Rightarrow> ('s, 'c) KPIECE1" where
  "next_iteration p = p\<lparr>tree := (tree p)\<lparr>tree_iteration := tree_iteration (tree p) + 1\<rparr>\<rparr>"

definition expand ::
  "('s, 'c) Env \<Rightarrow> ('s, 'c) Draws \<Rightarrow> ('s, 'c) Search \<Rightarrow> ('s, 'c) Motion \<Rightarrow> Coord
     \<Rightarrow> error + ('s, 'c) Search flow" where
  "expand env d st2 existing ecell =
     (let p2 = planner st2; cd = propagated d
      in if cd \<ge> minControlDuration env then
           (if 3 * length (grid (tree p2)) = 0 then Inl DivisionByZero
            else if unat cd \<le> length (buffer d) then
              (let avgCov_two_thirds =
                     (2 * tree_size (tree p2)) div (3 * length (grid (tree p2)));
                   coords = map (computeCoordinates env) (take (unat cd) (buffer d));
                   interestingMotion =
                     interestingMotion_loop (grid (tree p2)) avgCov_two_thirds coords False
               in if interestingMotion \<or> u_split d < 0.05 then
                    (case split_loop env (rctrl d) coords (buffer d) cd 0 existing st2 of
                       Inl e \<Rightarrow> Inl e
                     | Inr (Break st3) \<Rightarrow> Inr (Break st3)
                     | Inr (Continue st3) \<Rightarrow>
                         score_and_update env st3 ecell (goodScoreFactor (planner st3)))
                  else score_and_update env st2 ecell (goodScoreFactor p2))
            else Inl OutOfRange)
         else score_and_update env st2 ecell (badScoreFactor p2))"

text \<open>
  The search state with which the main loop starts, the outcome of \<^verbatim>\<open>solve\<close> when
  seeding leaves the grid empty, and its outcome after the loop.
\<close>

definition initial_search :: "('s, 'c) KPIECE1 \<Rightarrow> ('s, 'c) Search" where
  "initial_search p1 =
     \<lparr>planner = p1\<lparr>msg := msg p1 @ [Inform ''Starting with %u states'' [tree_size (tree p1)]]\<rparr>,
      closeSamples = \<lparr>samples = [], maxSize = nCloseSamples p1\<rparr>,
      solution = None, approxsol = None, approxdif = None\<rparr>"

definition no_start :: "('s, 'c) KPIECE1 \<Rightarrow> ('s, 'c) Outcome" where
  "no_start p1 =
     \<lparr>returned = False,
      final = p1\<lparr>msg := msg p1 @ [Error ''There are no valid initial states!'']\<rparr>,
      solutionPath = None, difference = None\<rparr>"

definition report :: "('s, 'c) Env \<Rightarrow> ('s, 'c) Search \<Rightarrow> ('s, 'c) Outcome" where
  "report env st =
     (let approximate = (solution st = None);
          sol = (if solution st = None then approxsol st else solution st);
          path = map_option (\<lambda>m. (solutionPath_of env m, approximate)) sol;
          p3 = planner st;
          g = grid (tree p3);
          warn = (if sol \<noteq> None \<and> approximate
                  then [Warn ''Found approximate solution''] else []);
          created = Inform ''Created %u states in %u cells (%u internal + %u external)''
                      [tree_size (tree p3), length g,
                       length (internalCells g), length (externalCells g)]
      in \<lparr>returned = isAchieved env path,
          final = p3\<lparr>msg := msg p3 @ warn @ [created]\<rparr>,
          solutionPath = path,
          difference = (if sol = None then None else approxdif st)\<rparr>)"


section \<open>Concrete values\<close>

text \<open>Motions and close samples of states and controls that are natural numbers.\<close>

definition m0 :: "(nat, nat) Motion" where
  "m0 = Motion 0 0 0 None"

definition m1 :: "(nat, nat) Motion" where "m1 = Motion 1 0 1 None"

definition m2 :: "(nat, nat) Motion" where "m2 = Motion 2 0 1 None"

definition m3 :: "(nat, nat) Motion" where "m3 = Motion 3 0 1 None"

text \<open>
  Containers of close samples: one of capacity 2 at capacity, an empty one of
  capacity 3, and two filled by \<^verbatim>\<open>consider\<close>, from the largest distance down.
\<close>

definition cs12 :: "(nat, nat) CloseSamples" where
  "cs12 = \<lparr>samples = [\<lparr>cell = [0], motion = m0, distance = 1\<rparr>,
                       \<lparr>cell = [1], motion = m0, distance = 2\<rparr>], maxSize = 2\<rparr>"




text \<open>
  The planner as constructed, and the same with \<^verbatim>\<open>badScoreFactor_\<close> set to epsilon.
\<close>

definition kp_new :: "(nat, nat) KPIECE1" where
  "kp_new = KPIECE1_new"


text \<open>
  A small planning problem: states are natural numbers, the projection groups them
  by tens, the goal is reached from 100 on, and the priority key of a cell is its
  coverage.
\<close>

definition env0 :: "(nat, nat) Env" where
  "env0 = \<lparr>computeCoordinates = (\<lambda>s. [int (s div 10)]),
           isSatisfied = (\<lambda>s. (100 \<le> s, real (100 - s))),
           nullControl = 0,
           computeImportance = (\<lambda>x. real (coverage (data x))),
           minControlDuration = 1,
           maxControlDuration = 10,
           propagationStepSize = 1,
           initialSteps = 0,
           isAchieved = (\<lambda>r. r \<noteq> None)\<rparr>"

text \<open>
  One pass of the loop: a trajectory of six valid steps whose coordinates are
  [1], [1], [2], [2], [2], [3].
\<close>

definition d0 :: "(nat, nat) Draws" where
  "d0 = \<lparr>u_bias = 0.5, u_select = 0.5, halfNormalInt = (\<lambda>lo hi. lo), rctrl = 7,
         propagated = 6, buffer = [11, 12, 21, 22, 23, 31], u_split = 0.5\<rparr>"

text \<open>The planner seeded with the start state 5, and the cell this creates.\<close>

definition kp_seeded :: "(nat, nat) KPIECE1" where
  "kp_seeded = seed env0 kp_new [5]"

definition cell5 :: "(nat, nat) Cell" where
  "cell5 = \<lparr>coord = [0],
            data = \<lparr>motions = [Motion 5 0 0 None], coverage = 0, iteration = 1, selections = 1,
                     score = 1000 / 1001\<rparr>,
            importance = 0\<rparr>"

text \<open>
  A cell whose score has been driven down to 1e-320, and a planner whose grid is
  that cell alone.
\<close>

definition cell_low :: "(nat, nat) Cell" where
  "cell_low = \<lparr>coord = [0],
               data = \<lparr>motions = [Motion 5 0 0 None], coverage = 0, iteration = 1, selections = 1,
                        score = 1 / 10 ^ 320\<rparr>,
               importance = 0\<rparr>"

definition kp_low :: "(nat, nat) KPIECE1" where
  "kp_low = kp_new\<lparr>tree := \<lparr>grid = [cell_low], tree_size = 1, tree_iteration = 1\<rparr>\<rparr>"

text \<open>The same problem with a goal that the state 12 already satisfies.\<close>

definition env1 :: "(nat, nat) Env" where
  "env1 = env0\<lparr>isSatisfied := (\<lambda>s. (12 \<le> s, 0))\<rparr>"




section \<open>Properties of CloseSamples\<close>

lemma insert_sample_mset: "mset (insert_sample x xs) = add_mset x (mset xs)"
  by (induction xs) auto

lemma insert_sample_set: "set (insert_sample x xs) = insert x (set xs)"
  by (induction xs) auto

lemma insert_sample_length: "length (insert_sample x xs) = Suc (length xs)"
  by (induction xs) auto

lemma insert_sample_ordered: "ordered xs \<Longrightarrow> ordered (insert_sample x xs)"
  unfolding ordered_def
  by (induction xs) (auto simp: insert_sample_set)

lemma ordered_butlast: "ordered xs \<Longrightarrow> ordered (butlast xs)"
  unfolding ordered_def by (simp add: map_butlast sorted_butlast)


lemma ordered_last_Max:
  assumes "ordered xs" "xs \<noteq> []"
  shows "distance (last xs) = Max (distance ` set xs)"
proof -
  have "\<forall>y \<in> set xs. distance y \<le> distance (last xs)"
    using assms unfolding ordered_def
  proof (induction xs)
    case Nil
    then show ?case by simp
  next
    case (Cons a xs)
    then show ?case by (cases xs) auto
  qed
  moreover have "last xs \<in> set xs" using assms(2) by simp
  ultimately show ?thesis
    by (intro Max_eqI [symmetric]) auto
qed


text \<open>
  C4. On an ordered container, \<^verbatim>\<open>consider\<close> accepts exactly when the container is
  empty or the distance is strictly below the largest distance held. When it
  accepts, the container afterwards holds the new triple together with the old
  samples, less the last (worst) one if the container was non-empty and already at
  \<^verbatim>\<open>maxSize\<close>, and it is still ordered. When it refuses, nothing changes.
\<close>

theorem consider_accepts_iff:
  assumes "ordered (samples cs)"
  shows "(fst (cs_consider cs c m d) \<longleftrightarrow>
           samples cs = [] \<or> d < Max (distance ` set (samples cs)))
       \<and> (fst (cs_consider cs c m d) \<longrightarrow>
           mset (samples (snd (cs_consider cs c m d))) =
             add_mset \<lparr>cell = c, motion = m, distance = d\<rparr>
               (mset (if samples cs \<noteq> [] \<and> maxSize cs \<le> length (samples cs)
                      then butlast (samples cs) else samples cs))
           \<and> ordered (samples (snd (cs_consider cs c m d)))
           \<and> maxSize (snd (cs_consider cs c m d)) = maxSize cs)
       \<and> (\<not> fst (cs_consider cs c m d) \<longrightarrow> snd (cs_consider cs c m d) = cs)"
proof (cases "samples cs = []")
  case True
  then show ?thesis
    by (simp add: cs_consider_def ordered_def)
next
  case False
  have mx: "distance (last (samples cs)) = Max (distance ` set (samples cs))"
    using ordered_last_Max [OF assms False] .
  show ?thesis
    using False assms
    by (simp add: cs_consider_def Let_def mx [symmetric] insert_sample_mset
        insert_sample_ordered ordered_butlast)
qed

theorem consider_accepts_iff_witness:
  "ordered (samples cs12)
   \<and> fst (cs_consider cs12 [2] m0 (3 / 2))
   \<and> mset (samples (snd (cs_consider cs12 [2] m0 (3 / 2)))) =
       {#\<lparr>cell = [2], motion = m0, distance = 3 / 2\<rparr>, \<lparr>cell = [0], motion = m0, distance = 1\<rparr>#}
   \<and> \<not> fst (cs_consider cs12 [2] m0 2)
   \<and> snd (cs_consider cs12 [2] m0 2) = cs12"
proof -
  have h: "ordered (samples cs12)"
    by (simp add: ordered_def cs12_def)
  have a: "fst (cs_consider cs12 [2] m0 (3 / 2))" and b: "\<not> fst (cs_consider cs12 [2] m0 2)"
    by (simp_all add: cs_consider_def cs12_def)
  show ?thesis
    using h a b consider_accepts_iff [OF h, of "[2]" m0 "3 / 2"]
      consider_accepts_iff [OF h, of "[2]" m0 2]
    by (simp add: cs12_def)
qed

lemma consider_size_bound:
  assumes "0 < maxSize cs" "length (samples cs) \<le> maxSize cs"
  shows "length (samples (snd (cs_consider cs c m d))) \<le> maxSize cs"
  using assms
  by (auto simp: cs_consider_def Let_def insert_sample_length)

subsection \<open>selectMotion of CloseSamples\<close>





subsection \<open>The range checks of setup\<close>




subsection \<open>findNextMotion\<close>

lemma findNextMotion_loop_least:
  assumes "index < i" "i \<le> cnt" "unat cnt \<le> length coords"
    and "\<forall>j. index < j \<and> j < i \<longrightarrow> coords ! unat j = coords ! unat index"
  shows "findNextMotion_loop coords index cnt i =
           Inr (if \<exists>j. differs coords index cnt j
                then (LEAST j. differs coords index cnt j) - 1 else cnt - 1)"
  using assms
proof (induction coords index cnt i rule: findNextMotion_loop.induct)
  case (1 coords index cnt i)
  show ?case
  proof (cases "i < cnt")
    case True
    note lt = True
    have inr: "unat i < length coords \<and> unat index < length coords"
      using lt "1.prems"(1,3) by (auto simp: word_less_nat_alt)
    show ?thesis
    proof (cases "coords ! unat i \<noteq> coords ! unat index")
      case True
      have d: "differs coords index cnt i"
        using True lt "1.prems"(1) by (simp add: differs_def)
      have "(LEAST j. differs coords index cnt j) = i"
      proof (rule Least_equality)
        show "differs coords index cnt i" by (rule d)
      next
        fix y assume "differs coords index cnt y"
        then show "i \<le> y"
          using "1.prems"(4) by (auto simp: differs_def not_less [symmetric])
      qed
      with d True lt inr show ?thesis
        by (auto simp: findNextMotion_loop.simps [of coords index cnt i])
    next
      case False
      have a: "index < i + 1"
        using "1.prems"(1) lt by (auto simp: word_less_nat_alt word32_less_unat_Suc)
      have b: "i + 1 \<le> cnt" using lt by (rule inc_le)
      have c: "\<forall>j. index < j \<and> j < i + 1 \<longrightarrow> coords ! unat j = coords ! unat index"
      proof (intro allI impI)
        fix j assume j: "index < j \<and> j < i + 1"
        then have "unat j < Suc (unat i)"
          using lt by (auto simp: word_less_nat_alt word32_less_unat_Suc)
        then have "j < i \<or> j = i"
          by (auto simp: word_less_nat_alt word_unat_eq_iff)
        then show "coords ! unat j = coords ! unat index"
          using j False "1.prems"(4) by auto
      qed
      from "1.IH" [OF lt inr _ a b "1.prems"(3) c] False lt inr show ?thesis
        by (simp add: findNextMotion_loop.simps [of coords index cnt i])
    qed
  next
    case False
    then have e: "i = cnt" using "1.prems"(2) by auto
    have "\<not> (\<exists>j. differs coords index cnt j)"
      using "1.prems"(4) e by (auto simp: differs_def)
    with False show ?thesis
      by (simp add: findNextMotion_loop.simps [of coords index cnt i])
  qed
qed

text \<open>
  Called with \<open>index < cnt\<close> on a vector of at least \<open>cnt\<close>
  coordinates, \<^verbatim>\<open>findNextMotion\<close> returns \<open>i - 1\<close> for the smallest \<open>i\<close> above \<open>index\<close>
  and below \<open>cnt\<close> whose coordinate differs from the one at \<open>index\<close>, and \<open>cnt - 1\<close>
  when there is none.
\<close>

lemma findNextMotion_least:
  assumes "index < cnt" "unat cnt \<le> length coords"
  shows "findNextMotion coords index cnt =
           Inr (if \<exists>j. differs coords index cnt j
                then (LEAST j. differs coords index cnt j) - 1 else cnt - 1)"
proof -
  have a: "index < index + 1"
    using assms(1) by (auto simp: word_less_nat_alt word32_less_unat_Suc)
  have b: "index + 1 \<le> cnt" using assms(1) by (rule inc_le)
  have c: "\<forall>j. index < j \<and> j < index + 1 \<longrightarrow> coords ! unat j = coords ! unat index"
    using assms(1) by (auto simp: word_less_nat_alt word32_less_unat_Suc)
  show ?thesis
    unfolding findNextMotion_def
    by (rule findNextMotion_loop_least [OF a b assms(2) c])
qed

section \<open>Properties of the grid and of addMotion\<close>

lemma getCell_SomeD: "getCell g co = Some x \<Longrightarrow> x \<in> set g \<and> coord x = co"
  by (auto simp: getCell_def find_Some_iff)

lemma getCell_None_iff: "getCell g co = None \<longleftrightarrow> co \<notin> coord ` set g"
  by (auto simp: getCell_def find_None_iff)

lemma length_modify_cell: "length (modify_cell g co f) = length g"
  by (simp add: modify_cell_def)

lemma modify_cell_absent: "co \<notin> coord ` set g \<Longrightarrow> modify_cell g co f = g"
  by (induction g) (auto simp: modify_cell_def)

lemma modify_cell_append:
  "modify_cell (g @ h) co f = modify_cell g co f @ modify_cell h co f"
  by (simp add: modify_cell_def)

lemma modify_cell_twice:
  assumes "\<And>x. coord (f x) = coord x"
  shows "modify_cell (modify_cell g co f) co h = modify_cell g co (\<lambda>x. h (f x))"
  using assms by (induction g) (auto simp: modify_cell_def)

lemma map_coord_modify_cell:
  assumes "\<And>x. coord (f x) = coord x"
  shows "map coord (modify_cell g co f) = map coord g"
  using assms by (induction g) (auto simp: modify_cell_def)

lemma getCell_modify_cell:
  assumes "\<And>x. coord (f x) = coord x"
  shows "getCell (modify_cell g co f) c' =
           (if c' = co then map_option f (getCell g co) else getCell g c')"
  using assms by (induction g) (auto simp: modify_cell_def getCell_def)

lemma coord_added_to: "coord (added_to env m x) = coord x"
  by (simp add: added_to_def Let_def)

lemma coord_created: "coord (created env it m d) = computeCoordinates env (state m)"
  by (simp add: created_def Let_def)

lemma addMotion_old:
  assumes "getCell (grid (tree p)) (computeCoordinates env (state m)) = Some x"
  shows "addMotion env p m d =
           (p\<lparr>tree := (tree p)\<lparr>grid := modify_cell (grid (tree p))
                                            (computeCoordinates env (state m)) (added_to env m),
                                 tree_size := tree_size (tree p) + 1\<rparr>\<rparr>,
            computeCoordinates env (state m))"
proof -
  have "Grid_update env
          (modify_cell (grid (tree p)) (computeCoordinates env (state m))
             (\<lambda>x. x\<lparr>data := (data x)\<lparr>motions := motions (data x) @ [m],
                                     coverage := coverage (data x) + steps m\<rparr>\<rparr>))
          (computeCoordinates env (state m))
        = modify_cell (grid (tree p)) (computeCoordinates env (state m)) (added_to env m)"
    unfolding Grid_update_def
    by (subst modify_cell_twice) (simp_all add: added_to_def [abs_def] Let_def)
  then show ?thesis
    using assms by (simp add: addMotion_def Let_def)
qed

lemma addMotion_new:
  assumes "getCell (grid (tree p)) (computeCoordinates env (state m)) = None"
  shows "addMotion env p m d =
           (p\<lparr>tree := (tree p)\<lparr>grid := grid (tree p) @ [created env (tree_iteration (tree p)) m d],
                                 tree_size := tree_size (tree p) + 1\<rparr>\<rparr>,
            computeCoordinates env (state m))"
proof -
  have ab: "computeCoordinates env (state m) \<notin> coord ` set (grid (tree p))"
    using assms by (simp add: getCell_None_iff)
  have "Grid_add env
          (modify_cell (createCell (grid (tree p)) (computeCoordinates env (state m)))
             (computeCoordinates env (state m))
             (\<lambda>x. x\<lparr>data := (data x)\<lparr>motions := motions (data x) @ [m],
                                     coverage := steps m,
                                     iteration := tree_iteration (tree p),
                                     selections := 1,
                                     score := (1.0 + ln (real (tree_iteration (tree p))))
                                                / (0.001 + d)\<rparr>\<rparr>))
          (computeCoordinates env (state m))
        = grid (tree p) @ [created env (tree_iteration (tree p)) m d]"
    unfolding Grid_add_def createCell_def
    by (simp add: modify_cell_append modify_cell_absent [OF ab] created_def Let_def)
       (simp add: modify_cell_def)
  then show ?thesis
    using assms by (simp add: addMotion_def Let_def)
qed

subsection \<open>The invariant of the tree\<close>

lemma tree_inv_content:
  "tree_inv t \<longleftrightarrow>
     distinct (map fst (map cell_content (grid t)))
     \<and> sum_list (map (\<lambda>c. length (fst (snd c))) (map cell_content (grid t))) = tree_size t
     \<and> list_all (\<lambda>c. snd (snd c) = sum_list (map steps (fst (snd c)))) (map cell_content (grid t))"
  by (simp add: tree_inv_def cell_content_def comp_def list_all_iff)

lemma tree_inv_same_content:
  assumes "map cell_content (grid t') = map cell_content (grid t)" "tree_size t' = tree_size t"
  shows "tree_inv t' = tree_inv t"
  unfolding tree_inv_content using assms by simp

lemma content_modify_cell:
  assumes "\<And>x. cell_content (f x) = cell_content x"
  shows "map cell_content (modify_cell g co f) = map cell_content g"
  using assms by (induction g) (auto simp: modify_cell_def)

lemma content_updateAll: "map cell_content (updateAll env g) = map cell_content g"
  by (induction g) (auto simp: updateAll_def cell_content_def)

lemma cell_content_rescue: "cell_content (rescue x) = cell_content x"
  by (simp add: rescue_def cell_content_def)

lemma content_rescue: "map cell_content (map rescue g) = map cell_content g"
  by (simp add: cell_content_rescue)

lemma content_Grid_update: "map cell_content (Grid_update env g co) = map cell_content g"
  unfolding Grid_update_def by (rule content_modify_cell) (simp add: cell_content_def)

lemma sum_list_modify_cell:
  fixes h :: "('s, 'c) Cell \<Rightarrow> nat"
  assumes "distinct (map coord g)" "getCell g co = Some x"
  shows "sum_list (map h (modify_cell g co f)) + h x = sum_list (map h g) + h (f x)"
  using assms
proof (induction g)
  case Nil
  then show ?case by (simp add: getCell_def)
next
  case (Cons y g)
  show ?case
  proof (cases "coord y = co")
    case True
    then have "x = y" using Cons.prems(2) by (simp add: getCell_def)
    moreover have "co \<notin> coord ` set g" using Cons.prems(1) True by auto
    then have "modify_cell g co f = g" by (rule modify_cell_absent)
    ultimately show ?thesis using True by (simp add: modify_cell_append [of "[y]" g, simplified] modify_cell_def)
  next
    case False
    then have "getCell g co = Some x" using Cons.prems(2) by (simp add: getCell_def)
    from Cons.IH [OF _ this] Cons.prems(1) False show ?thesis
      by (simp add: modify_cell_def)
  qed
qed

lemma list_all_modify_cell:
  assumes "list_all P g" "\<And>y. P y \<Longrightarrow> coord y = co \<Longrightarrow> P (f y)"
  shows "list_all P (modify_cell g co f)"
  using assms by (induction g) (auto simp: modify_cell_def)

lemma tree_inv_addMotion:
  assumes "tree_inv (tree p)"
  shows "tree_inv (tree (fst (addMotion env p m d)))"
proof (cases "getCell (grid (tree p)) (computeCoordinates env (state m))")
  case None
  then have ab: "computeCoordinates env (state m) \<notin> coord ` set (grid (tree p))"
    by (simp add: getCell_None_iff)
  show ?thesis
    using assms ab
    by (simp add: addMotion_new [OF None] tree_inv_def created_def Let_def)
next
  case (Some x)
  let ?co = "computeCoordinates env (state m)"
  let ?g = "grid (tree p)"
  have d: "distinct (map coord ?g)" using assms by (simp add: tree_inv_def)
  have "sum_list (map (\<lambda>x. length (motions (data x))) (modify_cell ?g ?co (added_to env m)))
          + length (motions (data x))
        = sum_list (map (\<lambda>x. length (motions (data x))) ?g)
          + length (motions (data (added_to env m x)))"
    by (rule sum_list_modify_cell [OF d Some])
  then have s: "sum_list (map (\<lambda>x. length (motions (data x))) (modify_cell ?g ?co (added_to env m)))
        = tree_size (tree p) + 1"
    using assms by (simp add: tree_inv_def added_to_def Let_def)
  have c: "list_all (\<lambda>x. coverage (data x) = sum_list (map steps (motions (data x))))
             (modify_cell ?g ?co (added_to env m))"
    by (rule list_all_modify_cell) (use assms in \<open>simp_all add: tree_inv_def added_to_def Let_def\<close>)
  have k: "map coord (modify_cell ?g ?co (added_to env m)) = map coord ?g"
    by (rule map_coord_modify_cell) (rule coord_added_to)
  show ?thesis
    using d s c k by (simp add: addMotion_old [OF Some] tree_inv_def)
qed

subsection \<open>What selection and scoring leave alone\<close>

lemma same_content_refl: "same_content p p"
  by (simp add: same_content_def)

lemma same_content_trans: "same_content p q \<Longrightarrow> same_content q r \<Longrightarrow> same_content p r"
  by (simp add: same_content_def)

lemma top_cell_mem: "top_cell xs = Some x \<Longrightarrow> x \<in> set xs"
  by (induction xs arbitrary: x) (auto split: option.splits if_splits)

lemma top_cell_None_iff: "top_cell xs = None \<longleftrightarrow> xs = []"
  by (cases xs) (auto split: option.splits)

lemma chosen_top_mem: "chosen_top p u = Some sc \<Longrightarrow> sc \<in> set (grid (tree p))"
  by (auto simp: chosen_top_def topExternal_def topInternal_def externalCells_def
      internalCells_def split: if_splits dest: top_cell_mem)

lemma selectMotion_content:
  assumes "selectMotion env p u hn = Inr (p', r)"
  shows "same_content p p'"
proof -
  have a: "map cell_content
             (modify_cell g co (\<lambda>y. y\<lparr>data := (data y)\<lparr>selections := Suc (selections (data y))\<rparr>\<rparr>))
           = map cell_content g" for g :: "('a, 'b) Cell list" and co
    by (rule content_modify_cell) (simp add: cell_content_def)
  show ?thesis
    using assms
    by (auto simp: selectMotion_def Let_def same_content_def a content_updateAll
        cell_content_rescue split: option.splits if_splits)
qed

lemma score_and_update_content:
  assumes "score_and_update env st ecell f = Inr r"
  shows "same_content (planner st) (planner (flow_state r))"
proof -
  have a: "map cell_content
             (modify_cell g co (\<lambda>y. y\<lparr>data := (data y)\<lparr>score := score (data y) * f\<rparr>\<rparr>))
           = map cell_content g" for g :: "('a, 'b) Cell list" and co
    by (rule content_modify_cell) (simp add: cell_content_def)
  show ?thesis
    using assms
    by (auto simp: score_and_update_def Let_def same_content_def a content_Grid_update
        split: option.splits)
qed

lemma select_existing_content:
  assumes "select_existing env d p cs = Inr (p', cs', r)"
  shows "same_content p p'"
  using assms
  by (auto simp: select_existing_def same_content_refl
      split: if_splits option.splits prod.splits sum.splits dest: selectMotion_content)

subsection \<open>Relations that the loops carry along\<close>

lemma split_loop_unfold:
  "split_loop env rc coords sts cd index existing st =
     (if index < cd then
        (case findNextMotion coords index cd of
           Inl e \<Rightarrow> Inl e
         | Inr n \<Rightarrow>
             if unat n < length sts then
               (if fst (isSatisfied env (sts ! unat n))
                then Inr (Break (solved_with env st (new_motion sts rc index n existing)))
                else split_loop env rc coords sts cd (n + 1) (new_motion sts rc index n existing)
                       (after_add env st (new_motion sts rc index n existing)))
             else Inl OutOfRange)
      else Inr (Continue st))"
  by (subst split_loop.simps)
     (simp add: Let_def new_motion_def solved_with_def after_add_def split: sum.splits)

lemma split_loop_induct [consumes 0, case_names step]:
  fixes P :: "32 word \<Rightarrow> ('s, 'c) Motion \<Rightarrow> ('s, 'c) Search \<Rightarrow> bool"
  assumes "\<And>index existing st.
     (\<And>n. index < cd \<Longrightarrow> findNextMotion coords index cd = Inr n \<Longrightarrow> unat n < length sts
        \<Longrightarrow> \<not> fst (isSatisfied env (sts ! unat n))
        \<Longrightarrow> P (n + 1) (new_motion sts rc index n existing)
              (after_add env st (new_motion sts rc index n existing)))
     \<Longrightarrow> P index existing st"
  shows "P index existing st"
proof (induction "unat cd - unat index" arbitrary: index existing st rule: less_induct)
  case less
  show ?case
  proof (rule assms, goal_cases)
    case (1 n)
    have b: "index \<le> n \<and> n < cd" using findNextMotion_bounds [OF 1(1,2)] .
    then have "unat (n + 1) = Suc (unat n)" using word32_less_unat_Suc by blast
    with b have "unat cd - unat (n + 1) < unat cd - unat index"
      by (auto simp: word_less_nat_alt word_le_nat_alt)
    then show ?case
      by (rule less)
  qed
qed

lemma planner_after_add:
  "planner (after_add env st m) = fst (addMotion env (planner st) m (snd (isSatisfied env (state m))))"
  by (simp add: after_add_def Let_def)

lemma planner_solved_with:
  "planner (solved_with env st m) = fst (addMotion env (planner st) m (snd (isSatisfied env (state m))))"
  by (simp add: solved_with_def)

lemma split_loop_rel:
  assumes refl: "\<And>p. R p p"
    and trans: "\<And>p q r. R p q \<Longrightarrow> R q r \<Longrightarrow> R p r"
    and add: "\<And>p m d. R p (fst (addMotion env p m d))"
    and run: "split_loop env rc coords sts cd index existing st = Inr r"
  shows "R (planner st) (planner (flow_state r))"
  using run
proof (induction index existing st rule: split_loop_induct [where cd = cd and coords = coords
      and sts = sts and env = env and rc = rc])
  case (step index existing st)
  show ?case
  proof (cases "index < cd")
    case False
    with step.prems show ?thesis
      by (subst (asm) split_loop_unfold) (auto simp: refl)
  next
    case True
    note lt = True
    from step.prems lt obtain n where f: "findNextMotion coords index cd = Inr n"
      by (subst (asm) split_loop_unfold) (auto split: sum.splits)
    from step.prems lt f have inr: "unat n < length sts"
      by (subst (asm) split_loop_unfold) (auto split: if_splits)
    let ?m = "new_motion sts rc index n existing"
    show ?thesis
    proof (cases "fst (isSatisfied env (sts ! unat n))")
      case True
      with step.prems lt f inr have "r = Break (solved_with env st ?m)"
        by (subst (asm) split_loop_unfold) auto
      then show ?thesis by (simp add: planner_solved_with add)
    next
      case False
      with step.prems lt f inr
      have rec: "split_loop env rc coords sts cd (n + 1) ?m (after_add env st ?m) = Inr r"
        by (subst (asm) split_loop_unfold) auto
      have "R (planner (after_add env st ?m)) (planner (flow_state r))"
        by (rule step.IH [OF lt f inr False rec])
      moreover have "R (planner st) (planner (after_add env st ?m))"
        by (simp add: planner_after_add add)
      ultimately show ?thesis using trans by blast
    qed
  qed
qed

lemma iteration_unfold:
  "solve_iteration env d st =
     (case select_existing env d (next_iteration (planner st)) (closeSamples st) of
        Inl e \<Rightarrow> Inl e
      | Inr (p2, cs2, None) \<Rightarrow> Inl AssertionFailed
      | Inr (p2, cs2, Some (existing, ecell)) \<Rightarrow>
          expand env d (st\<lparr>planner := p2, closeSamples := cs2\<rparr>) existing ecell)"
  by (simp add: solve_iteration_def next_iteration_def expand_def Let_def
      split: sum.splits prod.splits option.splits)

lemma iteration_InrD:
  assumes "solve_iteration env d st = Inr r"
  obtains p2 cs2 existing ecell where
    "select_existing env d (next_iteration (planner st)) (closeSamples st)
       = Inr (p2, cs2, Some (existing, ecell))"
    "expand env d (st\<lparr>planner := p2, closeSamples := cs2\<rparr>) existing ecell = Inr r"
  using assms unfolding iteration_unfold
  by (auto split: sum.splits prod.splits option.splits)

lemma expand_rel:
  assumes refl: "\<And>p. R p p"
    and trans: "\<And>p q r. R p q \<Longrightarrow> R q r \<Longrightarrow> R p r"
    and add: "\<And>p m d. R p (fst (addMotion env p m d))"
    and tweak: "\<And>p q. same_content p q \<Longrightarrow> R p q"
    and run: "expand env d st2 existing ecell = Inr r"
  shows "R (planner st2) (planner (flow_state r))"
proof -
  have fin: "R (planner s) (planner (flow_state r))"
    if "score_and_update env s ecell f = Inr r" for s f
    by (rule tweak) (rule score_and_update_content [OF that])
  consider
    (bad) "score_and_update env st2 ecell (badScoreFactor (planner st2)) = Inr r"
    | (good) "score_and_update env st2 ecell (goodScoreFactor (planner st2)) = Inr r"
    | (brk) coords st3 where
        "split_loop env (rctrl d) coords (buffer d) (propagated d) 0 existing st2 = Inr (Break st3)"
        "r = Break st3"
    | (cont) coords st3 where
        "split_loop env (rctrl d) coords (buffer d) (propagated d) 0 existing st2 = Inr (Continue st3)"
        "score_and_update env st3 ecell (goodScoreFactor (planner st3)) = Inr r"
    using run
    by (auto simp: expand_def Let_def split: if_splits sum.splits flow.splits)
  then show ?thesis
  proof cases
    case bad
    from fin [OF bad] show ?thesis .
  next
    case good
    from fin [OF good] show ?thesis .
  next
    case brk
    from split_loop_rel [where R = R, OF refl trans add brk(1)] brk(2) show ?thesis
      by simp
  next
    case cont
    from split_loop_rel [where R = R, OF refl trans add cont(1)]
    have "R (planner st2) (planner st3)" by simp
    with fin [OF cont(2)] show ?thesis using trans by blast
  qed
qed

lemma iteration_rel:
  assumes refl: "\<And>p. R p p"
    and trans: "\<And>p q r. R p q \<Longrightarrow> R q r \<Longrightarrow> R p r"
    and add: "\<And>p m d. R p (fst (addMotion env p m d))"
    and tweak: "\<And>p q. same_content p q \<Longrightarrow> R p q"
    and run: "solve_iteration env d st = Inr r"
  shows "R (planner st) (planner (flow_state r))"
proof -
  from run obtain p2 cs2 existing ecell where
    sel: "select_existing env d (next_iteration (planner st)) (closeSamples st)
            = Inr (p2, cs2, Some (existing, ecell))"
    and ex: "expand env d (st\<lparr>planner := p2, closeSamples := cs2\<rparr>) existing ecell = Inr r"
    by (rule iteration_InrD)
  have r1: "R (planner st) (next_iteration (planner st))"
    by (rule tweak) (simp add: same_content_def next_iteration_def)
  have r2: "R (next_iteration (planner st)) p2"
    by (rule tweak) (rule select_existing_content [OF sel])
  have r3: "R p2 (planner (flow_state r))"
    using expand_rel [where R = R, OF refl trans add tweak ex] by simp
  from r1 r2 r3 show ?thesis using trans by blast
qed

lemma solve_loop_rel:
  assumes refl: "\<And>p. R p p"
    and trans: "\<And>p q r. R p q \<Longrightarrow> R q r \<Longrightarrow> R p r"
    and add: "\<And>p m d. R p (fst (addMotion env p m d))"
    and tweak: "\<And>p q. same_content p q \<Longrightarrow> R p q"
    and run: "solve_loop env ds st = Inr st'"
  shows "R (planner st) (planner st')"
  using run
proof (induction ds arbitrary: st)
  case Nil
  then show ?case by (simp add: refl)
next
  case (Cons d ds)
  from Cons.prems obtain r where it: "solve_iteration env d st = Inr r"
    by (auto split: sum.splits)
  have a: "R (planner st) (planner (flow_state r))"
    by (rule iteration_rel [where R = R, OF refl trans add tweak it])
  show ?case
  proof (cases r)
    case (Break s)
    with Cons.prems it a show ?thesis by simp
  next
    case (Continue s)
    with Cons.prems it have "solve_loop env ds s = Inr st'" by simp
    from Cons.IH [OF this] a Continue show ?thesis using trans by auto
  qed
qed

lemma seed_rel:
  assumes refl: "\<And>p. R p p"
    and trans: "\<And>p q r. R p q \<Longrightarrow> R q r \<Longrightarrow> R p r"
    and add: "\<And>p m d. R p (fst (addMotion env p m d))"
  shows "R p (seed env p starts)"
proof (induction starts arbitrary: p)
  case Nil
  show ?case by (simp add: refl)
next
  case (Cons s starts)
  have "R p (fst (addMotion env p (seed_motion env s) 1))" by (rule add)
  with Cons [of "fst (addMotion env p (seed_motion env s) 1)"] show ?case
    using trans by auto
qed

subsection \<open>The invariant along solve\<close>

lemma tree_size_addMotion:
  "tree_size (tree (fst (addMotion env p m d))) = tree_size (tree p) + 1"
  by (simp add: addMotion_def Let_def)

lemma addMotion_existing_cell:
  assumes "getCell (grid (tree p)) (computeCoordinates env (state m)) = Some x"
  shows "\<exists>y. getCell (grid (tree (fst (addMotion env p m d)))) (computeCoordinates env (state m)) = Some y
           \<and> motions (data y) = motions (data x) @ [m]
           \<and> coverage (data y) = coverage (data x) + steps m
           \<and> score (data y) = score (data x)
           \<and> iteration (data y) = iteration (data x)
           \<and> selections (data y) = selections (data x)"
  using assms
  by (simp add: addMotion_old [OF assms] getCell_modify_cell coord_added_to)
     (simp add: added_to_def Let_def)

lemma getCell_append:
  "getCell (g @ h) co = (case getCell g co of None \<Rightarrow> getCell h co | Some x \<Rightarrow> Some x)"
  by (induction g) (auto simp: getCell_def)

lemma addMotion_new_cell:
  assumes "getCell (grid (tree p)) (computeCoordinates env (state m)) = None"
  shows "\<exists>y. getCell (grid (tree (fst (addMotion env p m d)))) (computeCoordinates env (state m)) = Some y
           \<and> motions (data y) = [m] \<and> coverage (data y) = steps m
           \<and> iteration (data y) = tree_iteration (tree p) \<and> selections (data y) = 1
           \<and> score (data y) = (1 + ln (real (tree_iteration (tree p)))) / (0.001 + d)"
proof -
  have "getCell [created env (tree_iteration (tree p)) m d] (computeCoordinates env (state m))
          = Some (created env (tree_iteration (tree p)) m d)"
    by (simp add: getCell_def coord_created)
  then show ?thesis
    by (simp add: addMotion_new [OF assms] getCell_append assms)
       (simp add: created_def Let_def)
qed

lemma tree_inv_seed:
  assumes "tree_inv (tree p)"
  shows "tree_inv (tree (seed env p starts))"
proof -
  have "tree_inv (tree p) \<longrightarrow> tree_inv (tree (seed env p starts))"
  proof (rule seed_rel [where R = "\<lambda>p q. tree_inv (tree p) \<longrightarrow> tree_inv (tree q)"])
    show "tree_inv (tree p) \<longrightarrow> tree_inv (tree p)" for p :: "('a, 'b) KPIECE1" by simp
    show "tree_inv (tree p) \<longrightarrow> tree_inv (tree r)"
      if "tree_inv (tree p) \<longrightarrow> tree_inv (tree q)" "tree_inv (tree q) \<longrightarrow> tree_inv (tree r)"
      for p q r :: "('a, 'b) KPIECE1" using that by blast
    show "tree_inv (tree p) \<longrightarrow> tree_inv (tree (fst (addMotion env p m d)))" for p m d
      by (simp add: tree_inv_addMotion)
  qed
  with assms show ?thesis by simp
qed

lemma tree_inv_iteration:
  assumes "tree_inv (tree (planner st))" "solve_iteration env d st = Inr r"
  shows "tree_inv (tree (planner (flow_state r)))"
proof -
  have "tree_inv (tree (planner st)) \<longrightarrow> tree_inv (tree (planner (flow_state r)))"
  proof (rule iteration_rel [where R = "\<lambda>p q. tree_inv (tree p) \<longrightarrow> tree_inv (tree q)",
        OF _ _ _ _ assms(2)])
    show "tree_inv (tree p) \<longrightarrow> tree_inv (tree p)" for p :: "('a, 'b) KPIECE1" by simp
    show "tree_inv (tree p) \<longrightarrow> tree_inv (tree r)"
      if "tree_inv (tree p) \<longrightarrow> tree_inv (tree q)" "tree_inv (tree q) \<longrightarrow> tree_inv (tree r)"
      for p q r :: "('a, 'b) KPIECE1" using that by blast
    show "tree_inv (tree p) \<longrightarrow> tree_inv (tree (fst (addMotion env p m d)))" for p m d
      by (simp add: tree_inv_addMotion)
    show "tree_inv (tree p) \<longrightarrow> tree_inv (tree q)" if "same_content p q"
      for p q :: "('a, 'b) KPIECE1"
      using that tree_inv_same_content [of "tree q" "tree p"] by (simp add: same_content_def)
  qed
  with assms show ?thesis by simp
qed

lemma tree_inv_solve_loop:
  assumes "tree_inv (tree (planner st))" "solve_loop env ds st = Inr st'"
  shows "tree_inv (tree (planner st'))"
proof -
  have "tree_inv (tree (planner st)) \<longrightarrow> tree_inv (tree (planner st'))"
  proof (rule solve_loop_rel [where R = "\<lambda>p q. tree_inv (tree p) \<longrightarrow> tree_inv (tree q)",
        OF _ _ _ _ assms(2)])
    show "tree_inv (tree p) \<longrightarrow> tree_inv (tree p)" for p :: "('a, 'b) KPIECE1" by simp
    show "tree_inv (tree p) \<longrightarrow> tree_inv (tree r)"
      if "tree_inv (tree p) \<longrightarrow> tree_inv (tree q)" "tree_inv (tree q) \<longrightarrow> tree_inv (tree r)"
      for p q r :: "('a, 'b) KPIECE1" using that by blast
    show "tree_inv (tree p) \<longrightarrow> tree_inv (tree (fst (addMotion env p m d)))" for p m d
      by (simp add: tree_inv_addMotion)
    show "tree_inv (tree p) \<longrightarrow> tree_inv (tree q)" if "same_content p q"
      for p q :: "('a, 'b) KPIECE1"
      using that tree_inv_same_content [of "tree q" "tree p"] by (simp add: same_content_def)
  qed
  with assms show ?thesis by simp
qed

lemma tree_inv_solve:
  assumes "tree_inv (tree p)" "solve env p starts ds = Inr r"
  shows "tree_inv (tree (final r))"
proof -
  have s: "tree_inv (tree (seed env p starts))" using assms(1) by (rule tree_inv_seed)
  show ?thesis
  proof (cases "length (grid (tree (seed env p starts))) = 0")
    case True
    with assms(2) s show ?thesis by (auto simp: solve_def Let_def tree_inv_def)
  next
    case False
    define st0 where "st0 = \<lparr>planner = (seed env p starts)\<lparr>msg := msg (seed env p starts)
                   @ [Inform ''Starting with %u states'' [tree_size (tree (seed env p starts))]]\<rparr>,
               closeSamples = \<lparr>samples = [], maxSize = nCloseSamples (seed env p starts)\<rparr>,
               solution = None, approxsol = None, approxdif = None\<rparr>"
    have i0: "tree_inv (tree (planner st0))" using s by (simp add: st0_def tree_inv_def)
    from assms(2) False obtain st where
      l: "solve_loop env ds st0 = Inr st" and f: "tree (final r) = tree (planner st)"
      by (auto simp: solve_def Let_def st0_def split: sum.splits)
    from tree_inv_solve_loop [OF i0 l] f show ?thesis by simp
  qed
qed

subsection \<open>No cell leaves the grid\<close>

lemma coords_same_content:
  assumes "same_content p q"
  shows "map coord (grid (tree q)) = map coord (grid (tree p))"
proof -
  have e: "map fst (map cell_content g) = map coord g" for g :: "('a, 'b) Cell list"
    by (induction g) (simp_all add: cell_content_def)
  from assms have "map fst (map cell_content (grid (tree q)))
      = map fst (map cell_content (grid (tree p)))"
    by (simp only: same_content_def)
  then show ?thesis by (simp only: e)
qed

lemma coords_addMotion:
  "prefix (map coord (grid (tree p))) (map coord (grid (tree (fst (addMotion env p m d)))))"
proof (cases "getCell (grid (tree p)) (computeCoordinates env (state m))")
  case None
  show ?thesis by (simp add: addMotion_new [OF None])
next
  case (Some x)
  show ?thesis
    by (simp add: addMotion_old [OF Some] map_coord_modify_cell coord_added_to)
qed


lemma coords_split_loop:
  assumes "split_loop env rc coords sts cd index existing st = Inr r"
  shows "prefix (map coord (grid (tree (planner st)))) (map coord (grid (tree (planner (flow_state r)))))"
proof (rule split_loop_rel [where R = "\<lambda>p q. prefix (map coord (grid (tree p))) (map coord (grid (tree q)))",
      OF _ _ _ assms])
  show "prefix (map coord (grid (tree p))) (map coord (grid (tree r)))"
    if "prefix (map coord (grid (tree p))) (map coord (grid (tree q)))"
      "prefix (map coord (grid (tree q))) (map coord (grid (tree r)))"
    for p q r :: "('a, 'b) KPIECE1" using that by (rule prefix_order.trans)
qed (simp_all add: coords_addMotion)

lemma coords_iteration:
  assumes "solve_iteration env d st = Inr r"
  shows "prefix (map coord (grid (tree (planner st)))) (map coord (grid (tree (planner (flow_state r)))))"
proof (rule iteration_rel [where R = "\<lambda>p q. prefix (map coord (grid (tree p))) (map coord (grid (tree q)))",
      OF _ _ _ _ assms])
  show "prefix (map coord (grid (tree p))) (map coord (grid (tree r)))"
    if "prefix (map coord (grid (tree p))) (map coord (grid (tree q)))"
      "prefix (map coord (grid (tree q))) (map coord (grid (tree r)))"
    for p q r :: "('a, 'b) KPIECE1" using that by (rule prefix_order.trans)
qed (simp_all add: coords_addMotion coords_same_content)

lemma coords_solve_loop:
  assumes "solve_loop env ds st = Inr st'"
  shows "prefix (map coord (grid (tree (planner st)))) (map coord (grid (tree (planner st'))))"
proof (rule solve_loop_rel [where R = "\<lambda>p q. prefix (map coord (grid (tree p))) (map coord (grid (tree q)))",
      OF _ _ _ _ assms])
  show "prefix (map coord (grid (tree p))) (map coord (grid (tree r)))"
    if "prefix (map coord (grid (tree p))) (map coord (grid (tree q)))"
      "prefix (map coord (grid (tree q))) (map coord (grid (tree r)))"
    for p q r :: "('a, 'b) KPIECE1" using that by (rule prefix_order.trans)
qed (simp_all add: coords_addMotion coords_same_content)

lemma getCell_Some_iff: "(\<exists>x. getCell g co = Some x) \<longleftrightarrow> co \<in> set (map coord g)"
  using getCell_None_iff [of g co] by (cases "getCell g co") auto

lemma prefix_nonempty: "prefix xs ys \<Longrightarrow> xs \<noteq> [] \<Longrightarrow> ys \<noteq> []"
  by (auto simp: prefix_def)

subsection \<open>The splitting and the scoring return\<close>

lemma findNextMotion_total:
  assumes "index < cnt" "unat cnt \<le> length coords"
  shows "\<exists>n. findNextMotion coords index cnt = Inr n \<and> index \<le> n \<and> n < cnt"
  using findNextMotion_least [OF assms] findNextMotion_bounds [OF assms(1)] by auto

lemma split_loop_total:
  assumes "unat cd \<le> length coords" "unat cd \<le> length sts"
  shows "\<exists>r. split_loop env rc coords sts cd index existing st = Inr r"
proof (induction index existing st rule: split_loop_induct [where cd = cd and coords = coords
      and sts = sts and env = env and rc = rc])
  case (step index existing st)
  show ?case
  proof (cases "index < cd")
    case False
    then show ?thesis by (subst split_loop_unfold) simp
  next
    case True
    from findNextMotion_total [OF True assms(1)] obtain n where
      f: "findNextMotion coords index cd = Inr n" and b: "n < cd" by blast
    from b assms(2) have inr: "unat n < length sts" by (auto simp: word_less_nat_alt)
    show ?thesis
    proof (cases "fst (isSatisfied env (sts ! unat n))")
      case True
      with \<open>index < cd\<close> f inr show ?thesis by (subst split_loop_unfold) simp
    next
      case False
      from step [OF True f inr False] True f inr False show ?thesis
        by (subst split_loop_unfold) simp
    qed
  qed
qed


lemma score_and_update_total:
  assumes "ecell \<in> set (map coord (grid (tree (planner st))))"
  shows "\<exists>st'. score_and_update env st ecell f = Inr (Continue st')"
proof -
  from assms obtain x where "getCell (grid (tree (planner st))) ecell = Some x"
    using getCell_Some_iff by metis
  then show ?thesis by (simp add: score_and_update_def Let_def)
qed

lemma expand_total:
  assumes "grid (tree (planner st2)) \<noteq> []" "unat (propagated d) \<le> length (buffer d)"
    and "ecell \<in> set (map coord (grid (tree (planner st2))))"
  shows "\<exists>r. expand env d st2 existing ecell = Inr r"
proof -
  let ?coords = "map (computeCoordinates env) (take (unat (propagated d)) (buffer d))"
  have lc: "unat (propagated d) \<le> length ?coords" using assms(2) by simp
  from split_loop_total [OF lc assms(2), where env = env and rc = "rctrl d" and index = 0
      and existing = existing and st = st2]
  obtain r where
    sp: "split_loop env (rctrl d) ?coords (buffer d) (propagated d) 0 existing st2 = Inr r"
    by blast
  have fin: "\<exists>st'. score_and_update env st2 ecell f = Inr (Continue st')" for f
    using assms(3) by (rule score_and_update_total)
  have fin3: "\<exists>st'. score_and_update env st3 ecell f = Inr (Continue st')"
    if "r = Continue st3" for st3 f
  proof (rule score_and_update_total)
    from coords_split_loop [OF sp] that
    have "prefix (map coord (grid (tree (planner st2)))) (map coord (grid (tree (planner st3))))"
      by simp
    with assms(3) show "ecell \<in> set (map coord (grid (tree (planner st3))))"
      using set_mono_prefix by blast
  qed
  show ?thesis
  proof (cases r)
    case (Break s)
    with sp fin assms(1,2) show ?thesis
      by (auto simp: expand_def Let_def)
  next
    case (Continue s)
    with sp fin fin3 [OF Continue] assms(1,2) show ?thesis
      by (auto simp: expand_def Let_def)
  qed
qed

subsection \<open>The three stages of solve\<close>

lemma solve_unfold:
  "solve env p starts ds =
     (if grid (tree (seed env p starts)) = [] then Inr (no_start (seed env p starts))
      else case solve_loop env ds (initial_search (seed env p starts)) of
             Inl e \<Rightarrow> Inl e
           | Inr st \<Rightarrow> Inr (report env st))"
  by (simp add: solve_def Let_def no_start_def initial_search_def report_def split: sum.splits)

lemma tree_report: "tree (final (report env st)) = tree (planner st)"
  by (simp add: report_def Let_def)

section \<open>A concrete run\<close>

lemma kp_seeded_eq:
  "kp_seeded = kp_new\<lparr>tree := \<lparr>grid = [cell5], tree_size = 1, tree_iteration = 1\<rparr>\<rparr>"
  by (simp add: kp_seeded_def kp_new_def KPIECE1_new_def env0_def seed_motion_def addMotion_def
      getCell_def createCell_def modify_cell_def Grid_add_def Let_def cell5_def)

text \<open>
  With the single cell of the seeded grid, which is a border cell, the selection
  takes the seed motion and counts one more selection of the cell.
\<close>

lemma selectMotion_single:
  assumes "grid (tree p) = [cell5]" "selectBorderFraction p = 0.8"
  shows "selectMotion env p 0.5 (\<lambda>lo hi. lo)
           = Inr (p\<lparr>tree := (tree p)\<lparr>grid := [cell5\<lparr>data := (data cell5)\<lparr>selections := 2\<rparr>\<rparr>]\<rparr>\<rparr>,
                  Some (Motion 5 0 0 None, [0]))"
  using assms
  by (simp add: selectMotion_def fracExternal_def externalCells_def border_def neighbours_def
      topExternal_def getCell_def modify_cell_def epsilon_def Let_def cell5_def)

lemma select_existing_single:
  assumes "grid (tree p) = [cell5]" "selectBorderFraction p = 0.8" "samples cs = []"
  shows "select_existing env d0 p cs
           = Inr (p\<lparr>tree := (tree p)\<lparr>grid := [cell5\<lparr>data := (data cell5)\<lparr>selections := 2\<rparr>\<rparr>]\<rparr>\<rparr>,
                  cs, Some (Motion 5 0 0 None, [0]))"
proof -
  have "selectMotion env p (u_select d0) (halfNormalInt d0)
           = Inr (p\<lparr>tree := (tree p)\<lparr>grid := [cell5\<lparr>data := (data cell5)\<lparr>selections := 2\<rparr>\<rparr>]\<rparr>\<rparr>,
                  Some (Motion 5 0 0 None, [0]))"
    using selectMotion_single [OF assms(1,2)] by (simp add: d0_def)
  then show ?thesis
    using assms(3) by (simp add: select_existing_def cs_canSample_def)
qed

lemma iteration_single_total:
  assumes "grid (tree (planner st)) = [cell5]" "selectBorderFraction (planner st) = 0.8"
    "samples (closeSamples st) = []"
  shows "\<exists>r. solve_iteration env d0 st = Inr r"
proof -
  let ?p2 = "(next_iteration (planner st))\<lparr>tree := (tree (next_iteration (planner st)))
               \<lparr>grid := [cell5\<lparr>data := (data cell5)\<lparr>selections := 2\<rparr>\<rparr>]\<rparr>\<rparr>"
  have sel: "select_existing env d0 (next_iteration (planner st)) (closeSamples st)
               = Inr (?p2, closeSamples st, Some (Motion 5 0 0 None, [0]))"
    by (rule select_existing_single) (use assms in \<open>simp_all add: next_iteration_def\<close>)
  have "\<exists>r. expand env d0 (st\<lparr>planner := ?p2, closeSamples := closeSamples st\<rparr>)
               (Motion 5 0 0 None) [0] = Inr r"
    by (rule expand_total) (simp_all add: d0_def cell5_def)
  then show ?thesis
    unfolding iteration_unfold sel by simp
qed

lemma solve_single_total: "\<exists>s. solve env0 kp_new [5] [d0] = Inr (report env0 s)"
proof -
  have "\<exists>r. solve_iteration env0 d0 (initial_search kp_seeded) = Inr r"
    by (rule iteration_single_total)
       (simp_all add: initial_search_def kp_seeded_eq kp_new_def KPIECE1_new_def)
  then obtain r where "solve_iteration env0 d0 (initial_search kp_seeded) = Inr r" by blast
  then have "\<exists>s. solve_loop env0 [d0] (initial_search kp_seeded) = Inr s"
    by (cases r) simp_all
  then obtain s where l: "solve_loop env0 [d0] (initial_search kp_seeded) = Inr s" by blast
  have g: "grid (tree kp_seeded) \<noteq> []" by (simp add: kp_seeded_eq)
  have "solve env0 kp_new [5] [d0] = Inr (report env0 s)"
    unfolding solve_unfold kp_seeded_def [symmetric] using l g by simp
  then show ?thesis by blast
qed

section \<open>The invariant of the tree\<close>

text \<open>
  C7. The tree of a new or cleared planner satisfies the invariant: one cell per
  coordinate, the motions of all cells counted by \<^verbatim>\<open>tree_.size\<close>, the coverage of
  every cell the sum of the steps of its motions. \<^verbatim>\<open>addMotion\<close> keeps it, and so do
  the seeding, every pass of the main loop, any number of passes, and \<^verbatim>\<open>solve\<close> as
  a whole. \<^verbatim>\<open>addMotion\<close> counts one more motion; into an existing cell it appends
  the motion and adds its steps to the coverage, and a new cell starts with that
  motion alone and its steps as coverage.
\<close>

theorem tree_invariant:
  "tree_inv (tree (KPIECE1_new :: ('s, 'c) KPIECE1))
   \<and> tree_inv (tree (clear p))
   \<and> (tree_inv (tree p) \<longrightarrow>
         tree_inv (tree (fst (addMotion env p m d)))
       \<and> tree_inv (tree (seed env p starts))
       \<and> (\<forall>r. solve env p starts ds = Inr r \<longrightarrow> tree_inv (tree (final r))))
   \<and> (tree_inv (tree (planner st)) \<longrightarrow>
         (\<forall>r. solve_iteration env dr st = Inr r \<longrightarrow> tree_inv (tree (planner (flow_state r))))
       \<and> (\<forall>st'. solve_loop env ds st = Inr st' \<longrightarrow> tree_inv (tree (planner st'))))
   \<and> tree_size (tree (fst (addMotion env p m d))) = tree_size (tree p) + 1
   \<and> (\<forall>x. getCell (grid (tree p)) (computeCoordinates env (state m)) = Some x \<longrightarrow>
         (\<exists>y. getCell (grid (tree (fst (addMotion env p m d)))) (computeCoordinates env (state m))
                = Some y
              \<and> motions (data y) = motions (data x) @ [m]
              \<and> coverage (data y) = coverage (data x) + steps m))
   \<and> (getCell (grid (tree p)) (computeCoordinates env (state m)) = None \<longrightarrow>
         (\<exists>y. getCell (grid (tree (fst (addMotion env p m d)))) (computeCoordinates env (state m))
                = Some y
              \<and> motions (data y) = [m] \<and> coverage (data y) = steps m))"
proof (intro conjI impI allI)
  show "tree_inv (tree (KPIECE1_new :: ('s, 'c) KPIECE1))"
    by (simp add: tree_inv_def KPIECE1_new_def)
  show "tree_inv (tree (clear p))"
    by (simp add: tree_inv_def clear_def)
  show "tree_size (tree (fst (addMotion env p m d))) = tree_size (tree p) + 1"
    by (rule tree_size_addMotion)
next
  assume "tree_inv (tree p)"
  then show "tree_inv (tree (fst (addMotion env p m d)))" by (rule tree_inv_addMotion)
next
  assume "tree_inv (tree p)"
  then show "tree_inv (tree (seed env p starts))" by (rule tree_inv_seed)
next
  fix r assume "tree_inv (tree p)" "solve env p starts ds = Inr r"
  then show "tree_inv (tree (final r))" by (rule tree_inv_solve)
next
  fix r assume "tree_inv (tree (planner st))" "solve_iteration env dr st = Inr r"
  then show "tree_inv (tree (planner (flow_state r)))" by (rule tree_inv_iteration)
next
  fix st' assume "tree_inv (tree (planner st))" "solve_loop env ds st = Inr st'"
  then show "tree_inv (tree (planner st'))" by (rule tree_inv_solve_loop)
next
  fix x assume "getCell (grid (tree p)) (computeCoordinates env (state m)) = Some x"
  from addMotion_existing_cell [OF this]
  show "\<exists>y. getCell (grid (tree (fst (addMotion env p m d)))) (computeCoordinates env (state m))
                = Some y
              \<and> motions (data y) = motions (data x) @ [m]
              \<and> coverage (data y) = coverage (data x) + steps m"
    by blast
next
  assume "getCell (grid (tree p)) (computeCoordinates env (state m)) = None"
  from addMotion_new_cell [OF this]
  show "\<exists>y. getCell (grid (tree (fst (addMotion env p m d)))) (computeCoordinates env (state m))
                = Some y
              \<and> motions (data y) = [m] \<and> coverage (data y) = steps m"
    by blast
qed

theorem tree_invariant_witness:
  "tree_inv (tree kp_new)
   \<and> tree_inv (tree (seed env0 kp_new [5]))
   \<and> tree_inv (tree (fst (addMotion env0 kp_seeded (Motion 7 0 2 None) 1)))
   \<and> getCell (grid (tree kp_seeded)) (computeCoordinates env0 (state (Motion 7 0 2 None))) = Some cell5
   \<and> (\<exists>y. getCell (grid (tree (fst (addMotion env0 kp_seeded (Motion 7 0 2 None) 1)))) [0] = Some y
          \<and> motions (data y) = [Motion 5 0 0 None, Motion 7 0 2 None] \<and> coverage (data y) = 2)
   \<and> (\<exists>r. solve env0 kp_new [5] [d0] = Inr r \<and> tree_inv (tree (final r)))"
proof -
  note T = tree_invariant [where p = kp_new and env = env0 and starts = "[5]" and ds = "[d0]"]
  have a: "tree_inv (tree kp_new)"
    by (simp add: kp_new_def KPIECE1_new_def tree_inv_def)
  have b: "tree_inv (tree (seed env0 kp_new [5]))"
    using a T by blast
  have b': "tree_inv (tree kp_seeded)" using b by (simp add: kp_seeded_def)
  have c: "tree_inv (tree (fst (addMotion env0 kp_seeded (Motion 7 0 2 None) 1)))"
    using b' tree_invariant [where p = kp_seeded and env = env0] by blast
  have g: "getCell (grid (tree kp_seeded)) (computeCoordinates env0 (state (Motion 7 0 2 None)))
             = Some cell5"
    by (simp add: kp_seeded_eq getCell_def env0_def cell5_def)
  have e: "\<exists>y. getCell (grid (tree (fst (addMotion env0 kp_seeded (Motion 7 0 2 None) 1)))) [0] = Some y
          \<and> motions (data y) = [Motion 5 0 0 None, Motion 7 0 2 None] \<and> coverage (data y) = 2"
    using tree_invariant [where p = kp_seeded and env = env0 and m = "Motion 7 0 2 None" and d = 1,
        THEN conjunct2, THEN conjunct2, THEN conjunct2, THEN conjunct2, THEN conjunct2,
        THEN conjunct1, rule_format, OF g]
    by (simp add: env0_def cell5_def numeral_2_eq_2)
  obtain s where s: "solve env0 kp_new [5] [d0] = Inr (report env0 s)"
    using solve_single_total by blast
  then have f: "tree_inv (tree (final (report env0 s)))"
    using a T by blast
  from a b c g e s f show ?thesis by blast
qed

section \<open>The division of line 234\<close>

lemma findNextMotion_loop_error:
  "findNextMotion_loop coords index cnt i = Inl e \<Longrightarrow> e = OutOfRange"
proof (induction coords index cnt i rule: findNextMotion_loop.induct)
  case (1 coords index cnt i)
  then show ?case
    by (subst (asm) (2) findNextMotion_loop.simps) (auto split: if_splits)
qed

lemma findNextMotion_error: "findNextMotion coords index cnt = Inl e \<Longrightarrow> e = OutOfRange"
  unfolding findNextMotion_def by (rule findNextMotion_loop_error)

lemma split_loop_error:
  "split_loop env rc coords sts cd index existing st = Inl e \<Longrightarrow> e = OutOfRange"
proof (induction index existing st rule: split_loop_induct [where cd = cd and coords = coords
      and sts = sts and env = env and rc = rc])
  case (step index existing st)
  from step.prems show ?case
    by (subst (asm) split_loop_unfold)
       (auto split: if_splits sum.splits dest: findNextMotion_error intro: step.IH)
qed

lemma selectMotion_error:
  "selectMotion env p u hn = Inl e \<Longrightarrow> e = NullDereference \<or> e = OutOfRange"
  by (auto simp: selectMotion_def Let_def split: option.splits if_splits)

lemma select_existing_error:
  "select_existing env d p cs = Inl e \<Longrightarrow> e = NullDereference \<or> e = OutOfRange"
  by (auto simp: select_existing_def split: if_splits prod.splits option.splits sum.splits
      dest: selectMotion_error)

lemma score_and_update_error:
  "score_and_update env st ecell f = Inl e \<Longrightarrow> e = NullDereference"
  by (auto simp: score_and_update_def Let_def split: option.splits)

lemma expand_never_divides_by_zero:
  assumes "grid (tree (planner st2)) \<noteq> []"
  shows "expand env d st2 existing ecell \<noteq> Inl DivisionByZero"
  using assms
  by (auto simp: expand_def Let_def split: if_splits sum.splits flow.splits
      dest: split_loop_error score_and_update_error)

lemma iteration_never_divides_by_zero:
  assumes "grid (tree (planner st)) \<noteq> []"
  shows "solve_iteration env d st \<noteq> Inl DivisionByZero"
proof
  assume z: "solve_iteration env d st = Inl DivisionByZero"
  show False
  proof (cases "select_existing env d (next_iteration (planner st)) (closeSamples st)")
    case (Inl e)
    with z select_existing_error [OF Inl] show False
      by (auto simp: iteration_unfold)
  next
    case (Inr t)
    obtain p2 cs2 sel where t: "t = (p2, cs2, sel)" by (cases t)
    have c: "map coord (grid (tree p2)) = map coord (grid (tree (planner st)))"
      using coords_same_content [OF select_existing_content [OF Inr [unfolded t]]]
      by (simp add: next_iteration_def)
    with assms have ne: "grid (tree p2) \<noteq> []" by (metis map_is_Nil_conv)
    show False
    proof (cases sel)
      case None
      with z Inr t show False by (simp add: iteration_unfold)
    next
      case (Some a)
      obtain existing ecell where a: "a = (existing, ecell)" by (cases a)
      from z Inr t Some a
      have "expand env d (st\<lparr>planner := p2, closeSamples := cs2\<rparr>) existing ecell
              = Inl DivisionByZero"
        by (simp add: iteration_unfold)
      with expand_never_divides_by_zero [of "st\<lparr>planner := p2, closeSamples := cs2\<rparr>"] ne
      show False by simp
    qed
  qed
qed

lemma solve_loop_never_divides_by_zero:
  assumes "grid (tree (planner st)) \<noteq> []"
  shows "solve_loop env ds st \<noteq> Inl DivisionByZero"
  using assms
proof (induction ds arbitrary: st)
  case Nil
  show ?case by simp
next
  case (Cons d ds)
  show ?case
  proof (cases "solve_iteration env d st")
    case (Inl e)
    with iteration_never_divides_by_zero [OF Cons.prems, of env d] show ?thesis by auto
  next
    case (Inr r)
    show ?thesis
    proof (cases r)
      case (Break s)
      with Inr show ?thesis by simp
    next
      case (Continue s)
      from coords_iteration [OF Inr] Continue Cons.prems
      have "grid (tree (planner s)) \<noteq> []"
        using prefix_nonempty by fastforce
      from Cons.IH [OF this] Inr Continue show ?thesis by simp
    qed
  qed
qed

lemma solve_never_divides_by_zero: "solve env p starts ds \<noteq> Inl DivisionByZero"
proof (cases "grid (tree (seed env p starts)) = []")
  case True
  then show ?thesis by (simp add: solve_unfold)
next
  case False
  then have "grid (tree (planner (initial_search (seed env p starts)))) \<noteq> []"
    by (simp add: initial_search_def)
  from solve_loop_never_divides_by_zero [OF this, of env ds] False show ?thesis
    by (auto simp: solve_unfold split: sum.splits)
qed

text \<open>
  C10. \<^verbatim>\<open>solve\<close> never divides by zero at line 234 (the product \<^verbatim>\<open>3 * grid.size()\<close> is
  zero only for an empty grid, also modulo a power of two). When the grid is empty
  after seeding, \<^verbatim>\<open>solve\<close> returns false at once, whatever the loop would have drawn;
  from a non-empty grid neither a pass of the main loop nor any number of passes
  divides by zero, and the coordinates of the cells before a pass are still there,
  in the same order, after it: no cell is removed.
\<close>

theorem no_division_by_zero:
  "solve env p starts ds \<noteq> Inl DivisionByZero
   \<and> (grid (tree (seed env p starts)) = [] \<longrightarrow>
         solve env p starts ds = Inr (no_start (seed env p starts))
       \<and> \<not> returned (no_start (seed env p starts)))
   \<and> (grid (tree (planner st)) \<noteq> [] \<longrightarrow>
         solve_iteration env d st \<noteq> Inl DivisionByZero
       \<and> solve_loop env ds st \<noteq> Inl DivisionByZero)
   \<and> (\<forall>r. solve_iteration env d st = Inr r \<longrightarrow>
         prefix (map coord (grid (tree (planner st))))
                (map coord (grid (tree (planner (flow_state r))))))
   \<and> (\<forall>st'. solve_loop env ds st = Inr st' \<longrightarrow>
         prefix (map coord (grid (tree (planner st))))
                (map coord (grid (tree (planner st')))))"
  using solve_never_divides_by_zero [of env p starts ds]
    iteration_never_divides_by_zero [of st env d]
    solve_loop_never_divides_by_zero [of st env ds]
    coords_iteration [of env d st] coords_solve_loop [of env ds st]
  by (simp add: solve_unfold no_start_def)

theorem no_division_by_zero_witness:
  "grid (tree (planner (initial_search kp_seeded))) \<noteq> []
   \<and> solve_iteration env0 d0 (initial_search kp_seeded) \<noteq> Inl DivisionByZero
   \<and> grid (tree (seed env0 kp_new [])) = []
   \<and> solve env0 kp_new [] [d0] = Inr (no_start kp_new)
   \<and> solve env0 kp_new [5] [d0] \<noteq> Inl DivisionByZero"
proof -
  have a: "grid (tree (planner (initial_search kp_seeded))) \<noteq> []"
    by (simp add: initial_search_def kp_seeded_eq)
  have b: "grid (tree (seed env0 kp_new [])) = []"
    by (simp add: kp_new_def KPIECE1_new_def)
  have c: "solve_iteration env0 d0 (initial_search kp_seeded) \<noteq> Inl DivisionByZero"
    using a no_division_by_zero [where st = "initial_search kp_seeded" and env = env0 and d = d0]
    by blast
  have e: "solve env0 kp_new [] [d0] = Inr (no_start (seed env0 kp_new []))"
    using b no_division_by_zero [where p = kp_new and env = env0 and starts = "[]" and ds = "[d0]"]
    by blast
  have f: "solve env0 kp_new [5] [d0] \<noteq> Inl DivisionByZero"
    using no_division_by_zero [where p = kp_new and env = env0 and starts = "[5]" and ds = "[d0]"]
    by blast
  from a b c e f show ?thesis by simp
qed

section \<open>Seeding\<close>











section \<open>selectMotion\<close>

lemma getCell_mem_Some:
  assumes "x \<in> set g"
  shows "\<exists>y. getCell g (coord x) = Some y \<and> coord y = coord x"
proof -
  from assms have "coord x \<in> set (map coord g)" by simp
  then obtain y where "getCell g (coord x) = Some y" using getCell_Some_iff by metis
  then show ?thesis using getCell_SomeD by blast
qed

lemma getCell_map_keep:
  assumes "\<And>x. coord (f x) = coord x"
  shows "getCell (map f g) co = map_option f (getCell g co)"
  using assms by (induction g) (auto simp: getCell_def)


lemma selectMotion_top:
  assumes "chosen_top p u = Some sc"
  shows "selectMotion env p u hn =
     (case getCell (grid (tree (after_rescue env p sc))) (coord sc) of
        None \<Rightarrow> Inl NullDereference
      | Some x \<Rightarrow>
          if motions (data x) \<noteq> [] then
            (if 0 \<le> hn 0 (int (length (motions (data x))) - 1)
                \<and> hn 0 (int (length (motions (data x))) - 1) < int (length (motions (data x)))
             then Inr (count_selection (after_rescue env p sc) (coord sc),
                       Some (motions (data x) ! nat (hn 0 (int (length (motions (data x))) - 1)),
                             coord sc))
             else Inl OutOfRange)
          else Inr (after_rescue env p sc, None))"
  using assms
  by (simp add: selectMotion_def chosen_top_def Let_def after_rescue_def count_selection_def
      split: option.splits)

lemma grid_after_rescue_low:
  assumes "score (data sc) < epsilon"
  shows "grid (tree (after_rescue env p sc))
           = map (\<lambda>x. (rescue x)\<lparr>importance := computeImportance env (rescue x)\<rparr>) (grid (tree p))"
  using assms by (simp add: after_rescue_def updateAll_def)

lemma map_count_selection:
  assumes "\<And>y. h (y\<lparr>data := (data y)\<lparr>selections := selections (data y) + 1\<rparr>\<rparr>) = h y"
  shows "map h (grid (tree (count_selection q co))) = map h (grid (tree q))"
proof -
  have "map h (modify_cell g co (\<lambda>y. y\<lparr>data := (data y)\<lparr>selections := selections (data y) + 1\<rparr>\<rparr>))
          = map h g" for g
    using assms by (induction g) (auto simp: modify_cell_def)
  then show ?thesis by (simp add: count_selection_def)
qed

lemma selectMotion_rescue:
  assumes top: "chosen_top p u = Some sc"
    and low: "score (data sc) < epsilon"
    and rng: "\<forall>lo hi. lo \<le> hi \<longrightarrow> lo \<le> hn lo hi \<and> hn lo hi \<le> hi"
  shows "\<exists>p' r. selectMotion env p u hn = Inr (p', r)
           \<and> map (\<lambda>x. score (data x)) (grid (tree p'))
               = map (\<lambda>x. score (data x) + (1 + ln (real (iteration (data x))))) (grid (tree p))
           \<and> map (\<lambda>x. iteration (data x)) (grid (tree p'))
               = map (\<lambda>x. iteration (data x)) (grid (tree p))
           \<and> map coord (grid (tree p')) = map coord (grid (tree p))
           \<and> map importance (grid (tree p'))
               = map (\<lambda>x. computeImportance env (rescue x)) (grid (tree p))"
proof -
  let ?p1 = "after_rescue env p sc"
  let ?p2 = "count_selection ?p1 (coord sc)"
  note g1 = grid_after_rescue_low [OF low, of env p]
  have s1: "map (\<lambda>x. score (data x)) (grid (tree ?p1))
              = map (\<lambda>x. score (data x) + (1 + ln (real (iteration (data x))))) (grid (tree p))"
    by (simp add: g1 rescue_def)
  have i1: "map (\<lambda>x. iteration (data x)) (grid (tree ?p1))
              = map (\<lambda>x. iteration (data x)) (grid (tree p))"
    by (simp add: g1 rescue_def)
  have c1: "map coord (grid (tree ?p1)) = map coord (grid (tree p))"
    by (simp add: g1 rescue_def)
  have k1: "map importance (grid (tree ?p1))
              = map (\<lambda>x. computeImportance env (rescue x)) (grid (tree p))"
    by (simp add: g1)
  have s2: "map (\<lambda>x. score (data x)) (grid (tree ?p2)) = map (\<lambda>x. score (data x)) (grid (tree ?p1))"
    by (rule map_count_selection) simp
  have i2: "map (\<lambda>x. iteration (data x)) (grid (tree ?p2))
              = map (\<lambda>x. iteration (data x)) (grid (tree ?p1))"
    by (rule map_count_selection) simp
  have c2: "map coord (grid (tree ?p2)) = map coord (grid (tree ?p1))"
    by (rule map_count_selection) simp
  have k2: "map importance (grid (tree ?p2)) = map importance (grid (tree ?p1))"
    by (rule map_count_selection) simp
  from chosen_top_mem [OF top] have "coord sc \<in> set (map coord (grid (tree p)))" by simp
  then have "coord sc \<in> set (map coord (grid (tree ?p1)))" by (simp only: c1)
  then obtain x where x: "getCell (grid (tree ?p1)) (coord sc) = Some x"
    using getCell_Some_iff by metis
  show ?thesis
  proof (cases "motions (data x) = []")
    case True
    with x have "selectMotion env p u hn = Inr (?p1, None)"
      by (simp add: selectMotion_top [OF top])
    with s1 i1 c1 k1 show ?thesis by blast
  next
    case False
    then have "(0 :: int) \<le> int (length (motions (data x))) - 1" by (cases "motions (data x)") auto
    with rng have "0 \<le> hn 0 (int (length (motions (data x))) - 1)
        \<and> hn 0 (int (length (motions (data x))) - 1) \<le> int (length (motions (data x))) - 1"
      by blast
    with x False
    have "selectMotion env p u hn
            = Inr (?p2, Some (motions (data x) ! nat (hn 0 (int (length (motions (data x))) - 1)), coord sc))"
      by (simp add: selectMotion_top [OF top])
    moreover note s2 [unfolded s1] i2 [unfolded i1] c2 [unfolded c1] k2 [unfolded k1]
    ultimately show ?thesis by blast
  qed
qed

text \<open>
  C6. When the top cell of the chosen partition has a score below epsilon and the
  generator keeps \<^verbatim>\<open>halfNormalInt\<close> within its bounds, \<^verbatim>\<open>selectMotion\<close> returns, and
  in the grid it leaves every cell, in place, has the score it had plus 1 plus the
  logarithm of its iteration, and the priority key that the hook computes from the
  cell so rescued (\<^verbatim>\<open>updateAll\<close> after the additions). If before the call every cell
  had an iteration of at least 1 and a score of at least 0, then afterwards every
  score is at least 1 plus the logarithm of the cell's iteration.
\<close>

theorem numerical_rescue:
  assumes top: "chosen_top p u = Some sc"
    and low: "score (data sc) < epsilon"
    and rng: "\<forall>lo hi. lo \<le> hi \<longrightarrow> lo \<le> hn lo hi \<and> hn lo hi \<le> hi"
  shows "\<exists>p' r. selectMotion env p u hn = Inr (p', r)
           \<and> map (\<lambda>x. score (data x)) (grid (tree p'))
               = map (\<lambda>x. score (data x) + (1.0 + ln (real (iteration (data x))))) (grid (tree p))
           \<and> map (\<lambda>x. iteration (data x)) (grid (tree p'))
               = map (\<lambda>x. iteration (data x)) (grid (tree p))
           \<and> map coord (grid (tree p')) = map coord (grid (tree p))
           \<and> map importance (grid (tree p'))
               = map (\<lambda>x. computeImportance env (rescue x)) (grid (tree p))
           \<and> ((\<forall>x \<in> set (grid (tree p)). 1 \<le> iteration (data x) \<and> 0 \<le> score (data x)) \<longrightarrow>
                (\<forall>y \<in> set (grid (tree p')). 1.0 + ln (real (iteration (data y))) \<le> score (data y)))"
proof -
  from selectMotion_rescue [OF top low rng, of env] obtain p' r where
    run: "selectMotion env p u hn = Inr (p', r)"
    and s: "map (\<lambda>x. score (data x)) (grid (tree p'))
               = map (\<lambda>x. score (data x) + (1 + ln (real (iteration (data x))))) (grid (tree p))"
    and i: "map (\<lambda>x. iteration (data x)) (grid (tree p'))
               = map (\<lambda>x. iteration (data x)) (grid (tree p))"
    and c: "map coord (grid (tree p')) = map coord (grid (tree p))"
    and k: "map importance (grid (tree p'))
               = map (\<lambda>x. computeImportance env (rescue x)) (grid (tree p))"
    by blast
  have len: "length (grid (tree p')) = length (grid (tree p))"
    using c by (metis length_map)
  have bound: "\<forall>y \<in> set (grid (tree p')). 1 + ln (real (iteration (data y))) \<le> score (data y)"
    if pre: "\<forall>x \<in> set (grid (tree p)). 1 \<le> iteration (data x) \<and> 0 \<le> score (data x)"
  proof
    fix y assume "y \<in> set (grid (tree p'))"
    then obtain n where n: "n < length (grid (tree p'))" "y = grid (tree p') ! n"
      by (auto simp: in_set_conv_nth)
    let ?x = "grid (tree p) ! n"
    have xin: "?x \<in> set (grid (tree p))" using n(1) len by simp
    have "score (data y) = map (\<lambda>x. score (data x)) (grid (tree p')) ! n"
      using n by simp
    also have "\<dots> = score (data ?x) + (1 + ln (real (iteration (data ?x))))"
      using n(1) len by (simp add: s)
    finally have sy: "score (data y) = score (data ?x) + (1 + ln (real (iteration (data ?x))))" .
    have "iteration (data y) = map (\<lambda>x. iteration (data x)) (grid (tree p')) ! n"
      using n by simp
    also have "\<dots> = iteration (data ?x)"
      using n(1) len by (simp add: i)
    finally have iy: "iteration (data y) = iteration (data ?x)" .
    from pre xin have "0 \<le> score (data ?x)" by blast
    with sy iy show "1 + ln (real (iteration (data y))) \<le> score (data y)" by simp
  qed
  from run s i c k bound show ?thesis by simp
qed

theorem numerical_rescue_witness:
  "chosen_top kp_low 0.5 = Some cell_low
   \<and> score (data cell_low) < epsilon
   \<and> grid (tree kp_low) = [cell_low]
   \<and> 1 \<le> iteration (data cell_low) \<and> 0 \<le> score (data cell_low)
   \<and> (\<exists>p' r. selectMotion env0 kp_low 0.5 (\<lambda>lo hi. lo) = Inr (p', r)
         \<and> map (\<lambda>x. score (data x)) (grid (tree p')) = [1 / 10 ^ 320 + 1]
         \<and> (\<forall>y \<in> set (grid (tree p')). 1.0 + ln (real (iteration (data y))) \<le> score (data y)))"
proof -
  have a: "chosen_top kp_low 0.5 = Some cell_low"
    by (simp add: chosen_top_def kp_low_def kp_new_def KPIECE1_new_def fracExternal_def
        externalCells_def border_def neighbours_def topExternal_def getCell_def cell_low_def)
  have b: "score (data cell_low) < epsilon"
    by (simp add: cell_low_def epsilon_def)
  have c: "\<forall>lo hi :: int. lo \<le> hi \<longrightarrow> lo \<le> (\<lambda>lo hi. lo) lo hi \<and> (\<lambda>lo hi. lo) lo hi \<le> hi"
    by simp
  have d: "\<forall>x \<in> set (grid (tree kp_low)). 1 \<le> iteration (data x) \<and> 0 \<le> score (data x)"
    by (simp add: kp_low_def cell_low_def)
  have g: "map (\<lambda>x. score (data x) + (1.0 + ln (real (iteration (data x))))) (grid (tree kp_low))
             = [1 / 10 ^ 320 + 1]"
    by (simp add: kp_low_def cell_low_def)
  from numerical_rescue [OF a b c, of env0] obtain p' r where
    r1: "selectMotion env0 kp_low 0.5 (\<lambda>lo hi. lo) = Inr (p', r)"
    and r2: "map (\<lambda>x. score (data x)) (grid (tree p'))
       = map (\<lambda>x. score (data x) + (1.0 + ln (real (iteration (data x))))) (grid (tree kp_low))"
    and r3: "(\<forall>x \<in> set (grid (tree kp_low)). 1 \<le> iteration (data x) \<and> 0 \<le> score (data x)) \<longrightarrow>
       (\<forall>y \<in> set (grid (tree p')). 1.0 + ln (real (iteration (data y))) \<le> score (data y))"
    by blast
  note r4 = r3 [THEN mp, OF d]
  note r5 = r2 [unfolded g]
  have e: "\<exists>p' r. selectMotion env0 kp_low 0.5 (\<lambda>lo hi. lo) = Inr (p', r)
         \<and> map (\<lambda>x. score (data x)) (grid (tree p')) = [1 / 10 ^ 320 + 1]
         \<and> (\<forall>y \<in> set (grid (tree p')). 1.0 + ln (real (iteration (data y))) \<le> score (data y))"
    by (intro exI conjI) (rule r1, rule r5, rule r4)
  have f: "grid (tree kp_low) = [cell_low]" by (simp add: kp_low_def)
  have h: "1 \<le> iteration (data cell_low)" "0 \<le> score (data cell_low)"
    by (simp_all add: cell_low_def)
  show ?thesis
    by (intro conjI) (rule a, rule b, rule f, rule h(1), rule h(2), rule e)
qed

subsection \<open>The three ways out of selectMotion\<close>

lemma selectMotion_empty_cell:
  assumes "chosen_top p u = Some sc"
    and "getCell (grid (tree (after_rescue env p sc))) (coord sc) = Some x"
    and "motions (data x) = []"
  shows "selectMotion env p u hn = Inr (after_rescue env p sc, None)"
  using assms(2,3) by (simp add: selectMotion_top [OF assms(1)])

lemma selectMotion_success:
  assumes "chosen_top p u = Some sc"
    and "getCell (grid (tree (after_rescue env p sc))) (coord sc) = Some x"
    and "motions (data x) \<noteq> []"
    and "\<forall>lo hi. lo \<le> hi \<longrightarrow> lo \<le> hn lo hi \<and> hn lo hi \<le> hi"
  shows "\<exists>k < length (motions (data x)).
           selectMotion env p u hn
             = Inr (count_selection (after_rescue env p sc) (coord sc),
                    Some (motions (data x) ! k, coord sc))"
proof -
  let ?k = "hn 0 (int (length (motions (data x))) - 1)"
  from assms(3) have "(0 :: int) \<le> int (length (motions (data x))) - 1"
    by (cases "motions (data x)") auto
  with assms(4) have r: "0 \<le> ?k \<and> ?k \<le> int (length (motions (data x))) - 1" by blast
  then have "nat ?k < length (motions (data x))" by auto
  moreover from r assms(2,3) have "selectMotion env p u hn
             = Inr (count_selection (after_rescue env p sc) (coord sc),
                    Some (motions (data x) ! nat ?k, coord sc))"
    by (simp add: selectMotion_top [OF assms(1)])
  ultimately show ?thesis by blast
qed


section \<open>Splitting a trajectory\<close>

lemma findNextMotion_AABBBC:
  assumes "A \<noteq> B" "B \<noteq> C"
  shows "findNextMotion [A, A, B, B, B, C] 0 6 = Inr 1"
    and "findNextMotion [A, A, B, B, B, C] 2 6 = Inr 4"
    and "findNextMotion [A, A, B, B, B, C] 5 6 = Inr 5"
  using assms by (simp_all add: findNextMotion_def findNextMotion_loop.simps)

lemma split_AABBBC:
  assumes ab: "A \<noteq> B" and bc: "B \<noteq> C" and len: "6 \<le> length sts"
    and n1: "\<not> fst (isSatisfied env (sts ! 1))" and n4: "\<not> fst (isSatisfied env (sts ! 4))"
  shows "split_loop env rc [A, A, B, B, B, C] sts 6 0 existing st =
           (let m1 = Motion (sts ! 1) rc 2 (Some existing);
                m2 = Motion (sts ! 4) rc 3 (Some m1);
                m3 = Motion (sts ! 5) rc 1 (Some m2);
                st2 = after_add env (after_add env st m1) m2
            in if fst (isSatisfied env (sts ! 5)) then Inr (Break (solved_with env st2 m3))
               else Inr (Continue (after_add env st2 m3)))"
proof -
  note f = findNextMotion_AABBBC [OF ab bc]
  have l: "1 < length sts" "4 < length sts" "5 < length sts" using len by auto
  define m1 where "m1 = Motion (sts ! 1) rc 2 (Some existing)"
  define m2 where "m2 = Motion (sts ! 4) rc 3 (Some m1)"
  define m3 where "m3 = Motion (sts ! 5) rc 1 (Some m2)"
  have e1: "new_motion sts rc 0 1 existing = m1" by (simp add: new_motion_def m1_def)
  have e2: "new_motion sts rc 2 4 m1 = m2" by (simp add: new_motion_def m2_def)
  have e3: "new_motion sts rc 5 5 m2 = m3" by (simp add: new_motion_def m3_def)
  have s3: "split_loop env rc [A, A, B, B, B, C] sts 6 6 m3 s = Inr (Continue s)" for s
    by (subst split_loop_unfold) simp
  have s2: "split_loop env rc [A, A, B, B, B, C] sts 6 5 m2 s =
              (if fst (isSatisfied env (sts ! 5)) then Inr (Break (solved_with env s m3))
               else Inr (Continue (after_add env s m3)))" for s
    using l by (subst split_loop_unfold) (simp add: f e3 s3)
  have s1: "split_loop env rc [A, A, B, B, B, C] sts 6 2 m1 s =
              split_loop env rc [A, A, B, B, B, C] sts 6 5 m2 (after_add env s m2)" for s
    using l n4 by (subst split_loop_unfold) (simp add: f e2)
  have s0: "split_loop env rc [A, A, B, B, B, C] sts 6 0 existing st =
              split_loop env rc [A, A, B, B, B, C] sts 6 2 m1 (after_add env st m1)"
    using l n1 by (subst split_loop_unfold) (simp add: f e1)
  show ?thesis
    unfolding s0 s1 s2 Let_def m1_def [symmetric] m2_def [symmetric] m3_def [symmetric]
    by simp
qed

lemma tree_size_after_add:
  "tree_size (tree (planner (after_add env st m))) = tree_size (tree (planner st)) + 1"
  by (simp add: planner_after_add tree_size_addMotion)

lemma tree_size_solved_with:
  "tree_size (tree (planner (solved_with env st m))) = tree_size (tree (planner st)) + 1"
  by (simp add: planner_solved_with tree_size_addMotion)

text \<open>
  C5, as the code has it. Called with \<open>index < cnt\<close> on at least \<open>cnt\<close> coordinates,
  \<^verbatim>\<open>findNextMotion\<close> returns \<open>i - 1\<close> for the smallest \<open>i\<close> above \<open>index\<close> and below
  \<open>cnt\<close> whose coordinate differs from the one at \<open>index\<close>, and \<open>cnt - 1\<close> when there
  is none. The splitting of six states whose coordinates are A, A, B, B, B, C, when
  neither of the first two segments ends in a state that satisfies the goal, adds
  exactly three motions: the state at 1 with 2 steps and the source motion as
  parent, the state at 4 with 3 steps and the first as parent, the state at 5 with
  1 step and the second as parent. It leaves by the \<^verbatim>\<open>break\<close> exactly when the last
  of them satisfies the goal.
\<close>

theorem findNextMotion_and_split:
  "(index < cnt \<and> unat cnt \<le> length coords \<longrightarrow>
      findNextMotion coords index cnt =
        Inr (if \<exists>j. differs coords index cnt j
             then (LEAST j. differs coords index cnt j) - 1 else cnt - 1))
   \<and> (A \<noteq> B \<and> B \<noteq> C \<and> 6 \<le> length sts
       \<and> \<not> fst (isSatisfied env (sts ! 1)) \<and> \<not> fst (isSatisfied env (sts ! 4)) \<longrightarrow>
       (let m1 = Motion (sts ! 1) rc 2 (Some existing);
            m2 = Motion (sts ! 4) rc 3 (Some m1);
            m3 = Motion (sts ! 5) rc 1 (Some m2);
            p1 = fst (addMotion env (planner st) m1 (snd (isSatisfied env (sts ! 1))));
            p2 = fst (addMotion env p1 m2 (snd (isSatisfied env (sts ! 4))));
            p3 = fst (addMotion env p2 m3 (snd (isSatisfied env (sts ! 5))))
        in \<exists>r. split_loop env rc [A, A, B, B, B, C] sts 6 0 existing st = Inr r
             \<and> planner (flow_state r) = p3
             \<and> tree_size (tree p3) = tree_size (tree (planner st)) + 3
             \<and> ((\<exists>s. r = Break s) \<longleftrightarrow> fst (isSatisfied env (sts ! 5)))))"
proof (intro conjI impI)
  assume "index < cnt \<and> unat cnt \<le> length coords"
  then show "findNextMotion coords index cnt =
        Inr (if \<exists>j. differs coords index cnt j
             then (LEAST j. differs coords index cnt j) - 1 else cnt - 1)"
    using findNextMotion_least by blast
next
  assume h: "A \<noteq> B \<and> B \<noteq> C \<and> 6 \<le> length sts
       \<and> \<not> fst (isSatisfied env (sts ! 1)) \<and> \<not> fst (isSatisfied env (sts ! 4))"
  define m1 where "m1 = Motion (sts ! 1) rc 2 (Some existing)"
  define m2 where "m2 = Motion (sts ! 4) rc 3 (Some m1)"
  define m3 where "m3 = Motion (sts ! 5) rc 1 (Some m2)"
  define st2 where "st2 = after_add env (after_add env st m1) m2"
  define p1 where "p1 = fst (addMotion env (planner st) m1 (snd (isSatisfied env (sts ! 1))))"
  define p2 where "p2 = fst (addMotion env p1 m2 (snd (isSatisfied env (sts ! 4))))"
  define p3 where "p3 = fst (addMotion env p2 m3 (snd (isSatisfied env (sts ! 5))))"
  have run: "split_loop env rc [A, A, B, B, B, C] sts 6 0 existing st =
               (if fst (isSatisfied env (sts ! 5)) then Inr (Break (solved_with env st2 m3))
                else Inr (Continue (after_add env st2 m3)))"
    using split_AABBBC [of A B C sts env rc existing st] h
    by (simp add: Let_def m1_def m2_def m3_def st2_def)
  have q2: "planner st2 = p2"
    by (simp add: st2_def planner_after_add p1_def p2_def m1_def m2_def)
  have q3: "planner (solved_with env st2 m3) = p3" "planner (after_add env st2 m3) = p3"
    by (simp_all add: planner_solved_with planner_after_add q2 p3_def m3_def)
  have sz: "tree_size (tree p3) = tree_size (tree (planner st)) + 3"
    by (simp add: p3_def p2_def p1_def tree_size_addMotion)
  have "\<exists>r. split_loop env rc [A, A, B, B, B, C] sts 6 0 existing st = Inr r
             \<and> planner (flow_state r) = p3
             \<and> tree_size (tree p3) = tree_size (tree (planner st)) + 3
             \<and> ((\<exists>s. r = Break s) \<longleftrightarrow> fst (isSatisfied env (sts ! 5)))"
    using run q3 sz by (cases "fst (isSatisfied env (sts ! 5))") simp_all
  then show "let m1 = Motion (sts ! 1) rc 2 (Some existing);
            m2 = Motion (sts ! 4) rc 3 (Some m1);
            m3 = Motion (sts ! 5) rc 1 (Some m2);
            p1 = fst (addMotion env (planner st) m1 (snd (isSatisfied env (sts ! 1))));
            p2 = fst (addMotion env p1 m2 (snd (isSatisfied env (sts ! 4))));
            p3 = fst (addMotion env p2 m3 (snd (isSatisfied env (sts ! 5))))
        in \<exists>r. split_loop env rc [A, A, B, B, B, C] sts 6 0 existing st = Inr r
             \<and> planner (flow_state r) = p3
             \<and> tree_size (tree p3) = tree_size (tree (planner st)) + 3
             \<and> ((\<exists>s. r = Break s) \<longleftrightarrow> fst (isSatisfied env (sts ! 5)))"
    unfolding Let_def m1_def m2_def m3_def p1_def p2_def p3_def .
qed

theorem findNextMotion_and_split_witness:
  "(0 :: 32 word) < 6
   \<and> unat (6 :: 32 word) \<le> length [[1], [1], [2], [2], [2], [3 :: int]]
   \<and> findNextMotion [[1], [1], [2], [2], [2], [3]] 0 6 = Inr 1
   \<and> (if \<exists>j. differs [[1], [1], [2], [2], [2], [3]] 0 6 j
       then (LEAST j. differs [[1], [1], [2], [2], [2], [3]] 0 6 j) - 1 else 6 - 1) = 1
   \<and> (\<exists>r. split_loop env0 7 [[1], [1], [2], [2], [2], [3]] (buffer d0) 6 0 (Motion 5 0 0 None)
              (initial_search kp_seeded) = Inr r
          \<and> tree_size (tree (planner (flow_state r))) = 4
          \<and> \<not> (\<exists>s. r = Break s))"
proof -
  have a: "(0 :: 32 word) < 6 \<and> unat (6 :: 32 word) \<le> length [[1], [1], [2], [2], [2], [3 :: int]]"
    by simp
  have b: "findNextMotion [[1], [1], [2], [2], [2], [3]] 0 6 = Inr 1"
    by (simp add: findNextMotion_def findNextMotion_loop.simps)
  note T = findNextMotion_and_split [where env = env0 and sts = "buffer d0" and rc = 7
      and existing = "Motion 5 0 0 None" and st = "initial_search kp_seeded"
      and A = "[1]" and B = "[2]" and C = "[3]"
      and coords = "[[1], [1], [2], [2], [2], [3]]" and index = 0 and cnt = 6]
  from T [THEN conjunct1, THEN mp, OF a] b
  have c: "(if \<exists>j. differs [[1], [1], [2], [2], [2], [3]] 0 6 j
       then (LEAST j. differs [[1], [1], [2], [2], [2], [3]] 0 6 j) - 1 else 6 - 1) = 1"
    by simp
  have h: "[1 :: int] \<noteq> [2] \<and> [2 :: int] \<noteq> [3] \<and> 6 \<le> length (buffer d0)
       \<and> \<not> fst (isSatisfied env0 (buffer d0 ! 1)) \<and> \<not> fst (isSatisfied env0 (buffer d0 ! 4))"
    by (simp add: d0_def env0_def)
  have z: "tree_size (tree (planner (initial_search kp_seeded))) = 1"
    by (simp add: initial_search_def kp_seeded_eq)
  have g: "\<not> fst (isSatisfied env0 (buffer d0 ! 5))"
    by (simp add: d0_def env0_def)
  from T [THEN conjunct2, THEN mp, OF h] z g
  have e: "\<exists>r. split_loop env0 7 [[1], [1], [2], [2], [2], [3]] (buffer d0) 6 0 (Motion 5 0 0 None)
              (initial_search kp_seeded) = Inr r
          \<and> tree_size (tree (planner (flow_state r))) = 4
          \<and> \<not> (\<exists>s. r = Break s)"
    unfolding Let_def by auto
  from a b c e show ?thesis by (intro conjI) simp_all
qed

text \<open>
  The claim as stated fails when a segment ends in the goal: with a goal that the
  state 12 satisfies, the splitting of the same trajectory stops at the first new
  motion, and one motion has been added, not three.
\<close>

theorem split_stops_at_goal:
  "map (computeCoordinates env1) (buffer d0) = [[1], [1], [2], [2], [2], [3]]
   \<and> split_loop env1 7 (map (computeCoordinates env1) (buffer d0)) (buffer d0) 6 0
       (Motion 5 0 0 None) (initial_search kp_seeded)
     = Inr (Break (solved_with env1 (initial_search kp_seeded)
                     (Motion 12 7 2 (Some (Motion 5 0 0 None)))))
   \<and> tree_size (tree (planner (solved_with env1 (initial_search kp_seeded)
                                  (Motion 12 7 2 (Some (Motion 5 0 0 None))))))
     = tree_size (tree (planner (initial_search kp_seeded))) + 1"
proof -
  have c: "map (computeCoordinates env1) (buffer d0) = [[1], [1], [2], [2], [2], [3]]"
    by (simp add: env1_def env0_def d0_def)
  have f: "findNextMotion [[1], [1], [2], [2], [2], [3]] 0 6 = Inr 1"
    by (simp add: findNextMotion_def findNextMotion_loop.simps)
  have b: "buffer d0 ! 1 = 12" "1 < length (buffer d0)" by (simp_all add: d0_def)
  have g: "fst (isSatisfied env1 12)" by (simp add: env1_def)
  have m: "new_motion (buffer d0) 7 0 1 (Motion 5 0 0 None) = Motion 12 7 2 (Some (Motion 5 0 0 None))"
    using b by (simp add: new_motion_def)
  have "split_loop env1 7 [[1], [1], [2], [2], [2], [3]] (buffer d0) 6 0
       (Motion 5 0 0 None) (initial_search kp_seeded)
     = Inr (Break (solved_with env1 (initial_search kp_seeded)
                     (Motion 12 7 2 (Some (Motion 5 0 0 None)))))"
    using b g by (subst split_loop_unfold) (simp add: f m)
  with c show ?thesis by (simp only: tree_size_solved_with)
qed

section \<open>The score of the source cell\<close>












subsection \<open>The first pass of the concrete run\<close>









end
